theory Spec2Isabelle
  imports Complex_Main
begin

section \<open>Python values used by the pipeline\<close>

text \<open>
  Python \<open>str\<close> values are modelled as \<^typ>\<open>string\<close>, a character standing for the code
  point of the same number. Exceptions are values of \<open>error\<close>; a function that may raise
  returns \<open>error + 'a\<close> with \<open>Inl\<close> for the raised exception.
\<close>

datatype error =
    ValueError
  | IndexError
  | KeyError
  | TypeError
  | AttributeError
  | AssertionError
  | JSONDecodeError
  | ClientError
  | Exception

text \<open>\<open>str.isspace\<close> for one character; the regular expression class \<open>\s\<close> is the same set.\<close>

definition isspace :: "char \<Rightarrow> bool" where
  "isspace c = (c \<in> set [CHR 0x09, CHR 0x0A, CHR 0x0B, CHR 0x0C, CHR 0x0D,
                          CHR 0x1C, CHR 0x1D, CHR 0x1E, CHR 0x1F, CHR 0x20,
                          CHR 0x85, CHR 0xA0])"

text \<open>
  \<open>text.split()\<close> with no separator: runs of whitespace separate the words, leading and
  trailing whitespace yields no empty word. \<open>split_from cur s\<close> scans \<open>s\<close> with the word
  read so far in \<open>cur\<close>.
\<close>

fun split_from :: "string \<Rightarrow> string \<Rightarrow> string list" where
  "split_from cur [] = (if cur = [] then [] else [cur])"
| "split_from cur (c # cs) =
     (if isspace c then (if cur = [] then split_from [] cs else cur # split_from [] cs)
      else split_from (cur @ [c]) cs)"

definition py_split :: "string \<Rightarrow> string list" where
  "py_split s = split_from [] s"

text \<open>\<open>sep.join(xs)\<close>.\<close>

fun py_join :: "string \<Rightarrow> string list \<Rightarrow> string" where
  "py_join sep [] = []"
| "py_join sep [x] = x"
| "py_join sep (x # y # ys) = x @ sep @ py_join sep (y # ys)"

text \<open>
  \<open>xs[i:j]\<close>: a negative bound counts from the end, and both bounds are clamped to the
  list.
\<close>

definition slice_bound :: "nat \<Rightarrow> int \<Rightarrow> nat" where
  "slice_bound n i = (if i < 0 then nat (max 0 (i + int n)) else min (nat i) n)"

definition py_slice :: "'a list \<Rightarrow> int \<Rightarrow> int \<Rightarrow> 'a list" where
  "py_slice xs i j =
     (let lo = slice_bound (length xs) i; hi = slice_bound (length xs) j
      in take (hi - lo) (drop lo xs))"

text \<open>\<open>range(start, stop, step)\<close>; a zero step raises \<open>ValueError\<close>.\<close>

definition py_range :: "int \<Rightarrow> int \<Rightarrow> int \<Rightarrow> error + int list" where
  "py_range start stop step =
     (if step = 0 then Inl ValueError
      else if 0 < step then
        Inr (map (\<lambda>k. start + int k * step) [0..<nat ((stop - start + step - 1) div step)])
      else
        Inr (map (\<lambda>k. start + int k * step) [0..<nat ((start - stop - step - 1) div (- step))]))"

section \<open>Windowed chunking (local-faiss-demo/build\_faiss\_index.py)\<close>

text \<open>
  The body of the \<open>for i in range(0, len(words), max_words - overlap)\<close> loop of
  \<open>chunk_text\<close>, over the indices the range yields; \<open>chunks\<close> is the list built so far.
\<close>

fun chunk_loop :: "string list \<Rightarrow> int \<Rightarrow> int list \<Rightarrow> string list \<Rightarrow> string list" where
  "chunk_loop words max_words [] chunks = chunks"
| "chunk_loop words max_words (i # is) chunks =
     (let chunk = py_join '' '' (py_slice words i (i + max_words))
      in chunk_loop words max_words is (if chunk \<noteq> [] then chunks @ [chunk] else chunks))"

definition chunk_text :: "string \<Rightarrow> int \<Rightarrow> int \<Rightarrow> error + string list" where
  "chunk_text text max_words overlap =
     (let words = py_split text in
      case py_range 0 (int (length words)) (max_words - overlap) of
        Inl e \<Rightarrow> Inl e
      | Inr is \<Rightarrow> Inr (chunk_loop words max_words is []))"


definition good_word :: "string \<Rightarrow> bool" where
  "good_word w = (w \<noteq> [] \<and> (\<forall>c\<in>set w. \<not> isspace c))"

section \<open>Sentence-aware chunking (aoss-serverless-demo/ec2-utils/embd\_to\_aoss.py)\<close>

text \<open>
  \<open>re.split(r'(?<=[.!?])\s+', text)\<close>: a separator is a maximal run of whitespace whose
  preceding character is one of \<open>.\<close>, \<open>!\<close>, \<open>?\<close>. \<open>re_split_from cur s\<close> scans \<open>s\<close> with
  the piece read so far in \<open>cur\<close>; the piece after a separator starts empty, and the text
  always yields at least one piece.
\<close>

function re_split_from :: "string \<Rightarrow> string \<Rightarrow> string list" where
  "re_split_from cur [] = [cur]"
| "re_split_from cur (c # cs) =
     (if isspace c \<and> cur \<noteq> [] \<and> last cur \<in> set ''.!?''
      then cur # re_split_from [] (dropWhile isspace cs)
      else re_split_from (cur @ [c]) cs)"
  by pat_completeness auto
termination
  by (relation "measure (\<lambda>(cur, s). length s)")
     (auto simp: le_imp_less_Suc length_dropWhile_le)

definition re_split_sentences :: "string \<Rightarrow> string list" where
  "re_split_sentences text = re_split_from [] text"

text \<open>
  The \<open>for s in sentences\<close> loop of the sentence-aware \<open>chunk_text\<close>, with its three
  variables \<open>chunks\<close>, \<open>current\<close> and \<open>count\<close>.
\<close>

fun sentence_loop ::
  "int \<Rightarrow> string list \<Rightarrow> string list \<Rightarrow> string list \<Rightarrow> int
    \<Rightarrow> string list \<times> string list \<times> int" where
  "sentence_loop max_words [] chunks current count = (chunks, current, count)"
| "sentence_loop max_words (s # ss) chunks current count =
     (let w = int (length (py_split s)) in
      if count + w > max_words
      then sentence_loop max_words ss (chunks @ [py_join '' '' current]) [s] w
      else sentence_loop max_words ss chunks (current @ [s]) (count + w))"

definition chunk_text_aoss :: "string \<Rightarrow> int \<Rightarrow> string list" where
  "chunk_text_aoss text max_words =
     (let sentences = re_split_sentences text in
      case sentence_loop max_words sentences [] [] 0 of
        (chunks, current, count) \<Rightarrow>
          if current \<noteq> [] then chunks @ [py_join '' '' current] else chunks)"

section \<open>Local ingest (local-faiss-demo/build\_faiss\_index.py)\<close>

text \<open>
  The metadata dictionary \<open>{"chunk": ..., "source": ...}\<close>, and a flat FAISS index: its
  dimension and the vectors in insertion order (a vector's slot is its position).
\<close>

record metadata =
  chunk :: string
  source :: string

record 'a faiss_index =
  dim :: nat
  vectors :: "'a list list"

text \<open>\<open>faiss.IndexFlatL2(dim)\<close>.\<close>

definition IndexFlatL2 :: "nat \<Rightarrow> 'a faiss_index" where
  "IndexFlatL2 n = \<lparr>dim = n, vectors = []\<rparr>"

text \<open>
  \<open>index.add(x)\<close> for one row: FAISS asserts that the row has the dimension of the index
  and appends it.
\<close>

definition faiss_add :: "'a faiss_index \<Rightarrow> 'a list \<Rightarrow> error + 'a faiss_index" where
  "faiss_add idx v =
     (if length v \<noteq> dim idx then Inl AssertionError
      else Inr (idx\<lparr>vectors := vectors idx @ [v]\<rparr>))"

text \<open>
  The two objects \<open>process_file\<close> mutates. An exception leaves them as they were when it
  was raised, so every ingest function returns the raised exception, if any, together
  with the state reached.
\<close>

record 'a ingest_state =
  index :: "'a faiss_index"
  metadata_list :: "metadata list"

text \<open>
  The \<open>for i, chunk in enumerate(chunks)\<close> loop of \<open>process_file\<close>. The embedding call
  \<open>get_titan_embedding\<close> (a request to the Bedrock service, followed by the conversion to
  a float vector) is the parameter of the same name.
\<close>

fun process_chunks ::
  "(string \<Rightarrow> error + 'a list) \<Rightarrow> string \<Rightarrow> string list \<Rightarrow> 'a ingest_state
    \<Rightarrow> error option \<times> 'a ingest_state" where
  "process_chunks get_titan_embedding key [] st = (None, st)"
| "process_chunks get_titan_embedding key (c # cs) st =
     (case get_titan_embedding c of
        Inl e \<Rightarrow> (Some e, st)
      | Inr vector \<Rightarrow>
          (case faiss_add (index st) vector of
             Inl e \<Rightarrow> (Some e, st)
           | Inr idx \<Rightarrow>
               process_chunks get_titan_embedding key cs
                 (st\<lparr>index := idx,
                     metadata_list := metadata_list st @ [\<lparr>chunk = c, source = key\<rparr>]\<rparr>)))"

definition process_file ::
  "(string \<Rightarrow> string \<Rightarrow> error + string) \<Rightarrow> (string \<Rightarrow> error + 'a list) \<Rightarrow> string \<Rightarrow> string
    \<Rightarrow> 'a ingest_state \<Rightarrow> error option \<times> 'a ingest_state" where
  "process_file get_s3_text get_titan_embedding bucket key st =
     (case get_s3_text bucket key of
        Inl e \<Rightarrow> (Some e, st)
      | Inr text \<Rightarrow>
          (case chunk_text text 200 50 of
             Inl e \<Rightarrow> (Some e, st)
           | Inr chunks \<Rightarrow> process_chunks get_titan_embedding key chunks st))"

text \<open>The \<open>for key in files\<close> loop of the script; the first exception ends it.\<close>

fun process_files ::
  "(string \<Rightarrow> string \<Rightarrow> error + string) \<Rightarrow> (string \<Rightarrow> error + 'a list) \<Rightarrow> string
    \<Rightarrow> string list \<Rightarrow> 'a ingest_state \<Rightarrow> error option \<times> 'a ingest_state" where
  "process_files get_s3_text get_titan_embedding bucket [] st = (None, st)"
| "process_files get_s3_text get_titan_embedding bucket (key # keys) st =
     (case process_file get_s3_text get_titan_embedding bucket key st of
        (Some e, st') \<Rightarrow> (Some e, st')
      | (None, st') \<Rightarrow> process_files get_s3_text get_titan_embedding bucket keys st')"

text \<open>
  The pairing of the two stores: equally long, and the vector at every slot is the
  embedding of the chunk recorded at that slot.
\<close>

definition paired :: "(string \<Rightarrow> error + 'a list) \<Rightarrow> 'a ingest_state \<Rightarrow> bool" where
  "paired get_titan_embedding st =
     (length (metadata_list st) = length (vectors (index st)) \<and>
      list_all2 (\<lambda>m v. get_titan_embedding (chunk m) = Inr v)
        (metadata_list st) (vectors (index st)))"

section \<open>JSON values and the two transports\<close>

text \<open>
  The values \<open>json.loads\<close> returns and \<open>json.dumps\<close> takes. A dictionary is an association
  list; numbers are rationals.
\<close>

datatype json =
    JNull
  | JBool bool
  | JNum rat
  | JStr string
  | JArr "json list"
  | JObj "(string \<times> json) list"

text \<open>
  A request to an external service. \<open>InvokeModel model_id body\<close> is
  \<open>bedrock.invoke_model(modelId=model_id, body=json.dumps(body), ...)\<close> and
  \<open>HttpPost url payload\<close> is \<open>requests.post(url, ..., json=payload)\<close>. The services are
  parameters of the model: \<open>invoke_model\<close> maps a request to the decoded response body
  or to the exception raised, \<open>post\<close> to the HTTP response. Every function that calls a
  service takes the list of requests made so far and returns it extended.
\<close>

datatype call = InvokeModel string json | HttpPost string json

record http_response =
  status_code :: int
  response_text :: string
  json_body :: "error + json"

type_synonym bedrock = "string \<Rightarrow> json \<Rightarrow> error + json"
type_synonym http = "string \<Rightarrow> json \<Rightarrow> error + http_response"

text \<open>\<open>s.startswith(p)\<close>, \<open>s.strip()\<close> and \<open>s.lower()\<close>.\<close>

definition startswith :: "string \<Rightarrow> string \<Rightarrow> bool" where
  "startswith s p = (take (length p) s = p)"

definition py_strip :: "string \<Rightarrow> string" where
  "py_strip s = rev (dropWhile isspace (rev (dropWhile isspace s)))"

definition lower_char :: "char \<Rightarrow> char" where
  "lower_char c =
     (let n = (of_char c :: nat) in
      if (65 \<le> n \<and> n \<le> 90) \<or> (192 \<le> n \<and> n \<le> 222 \<and> n \<noteq> 215)
      then char_of (n + 32) else c)"

definition py_lower :: "string \<Rightarrow> string" where
  "py_lower s = map lower_char s"

text \<open>\<open>str(i)\<close> for an integer.\<close>

fun digits_of :: "nat \<Rightarrow> string" where
  "digits_of n =
     (if n < 10 then [char_of (48 + n)]
      else digits_of (n div 10) @ [char_of (48 + n mod 10)])"

definition py_str :: "int \<Rightarrow> string" where
  "py_str i = (if i < 0 then CHR ''-'' # digits_of (nat (- i)) else digits_of (nat i))"

text \<open>
  \<open>x[key]\<close> with a string key, \<open>x[0]\<close>, \<open>x.get(key, default)\<close> and iteration over \<open>x\<close>,
  for a decoded JSON value \<open>x\<close>.
\<close>

fun getitem :: "json \<Rightarrow> string \<Rightarrow> error + json" where
  "getitem (JObj kvs) key = (case map_of kvs key of None \<Rightarrow> Inl KeyError | Some v \<Rightarrow> Inr v)"
| "getitem _ key = Inl TypeError"

fun getitem0 :: "json \<Rightarrow> error + json" where
  "getitem0 (JArr []) = Inl IndexError"
| "getitem0 (JArr (x # xs)) = Inr x"
| "getitem0 (JStr []) = Inl IndexError"
| "getitem0 (JStr (c # cs)) = Inr (JStr [c])"
| "getitem0 (JObj kvs) = Inl KeyError"
| "getitem0 _ = Inl TypeError"

fun dict_get :: "json \<Rightarrow> string \<Rightarrow> json \<Rightarrow> error + json" where
  "dict_get (JObj kvs) key dflt = (case map_of kvs key of None \<Rightarrow> Inr dflt | Some v \<Rightarrow> Inr v)"
| "dict_get _ key dflt = Inl AttributeError"

fun iterate :: "json \<Rightarrow> error + json list" where
  "iterate (JArr xs) = Inr xs"
| "iterate (JObj kvs) = Inr (map (\<lambda>kv. JStr (fst kv)) kvs)"
| "iterate (JStr s) = Inr (map (\<lambda>c. JStr [c]) s)"
| "iterate _ = Inl TypeError"

text \<open>\<open>sep.join(xs)\<close> for decoded values: every item has to be a string.\<close>

fun strings_of :: "json list \<Rightarrow> error + string list" where
  "strings_of [] = Inr []"
| "strings_of (JStr s # xs) = (case strings_of xs of Inl e \<Rightarrow> Inl e | Inr ss \<Rightarrow> Inr (s # ss))"
| "strings_of (_ # xs) = Inl TypeError"

section \<open>The Lambda handler (aoss-serverless-demo/lambda/lambda\_function.py)\<close>

record config =
  INDEX_NAME :: string
  AOSS_ENDPOINT :: string

definition EMBED_MODEL_ID :: string where
  "EMBED_MODEL_ID = ''amazon.titan-embed-text-v1''"

definition embed_text :: "bedrock \<Rightarrow> call list \<Rightarrow> string \<Rightarrow> (error + json) \<times> call list" where
  "embed_text invoke_model calls txt =
     (let body = JObj [(''inputText'', JStr txt)];
          calls' = calls @ [InvokeModel EMBED_MODEL_ID body]
      in case invoke_model EMBED_MODEL_ID body of
           Inl e \<Rightarrow> (Inl e, calls')
         | Inr res \<Rightarrow> (getitem res ''embedding'', calls'))"

text \<open>The comprehension \<open>[hit["_source"]["chunk"] for hit in hits]\<close>.\<close>

fun hit_chunks :: "json list \<Rightarrow> error + json list" where
  "hit_chunks [] = Inr []"
| "hit_chunks (hit # hits) =
     (case getitem hit ''_source'' of
        Inl e \<Rightarrow> Inl e
      | Inr src \<Rightarrow>
          (case getitem src ''chunk'' of
             Inl e \<Rightarrow> Inl e
           | Inr c \<Rightarrow> (case hit_chunks hits of Inl e \<Rightarrow> Inl e | Inr cs \<Rightarrow> Inr (c # cs))))"

definition response_hits :: "http_response \<Rightarrow> error + json list" where
  "response_hits response =
     (case json_body response of
        Inl e \<Rightarrow> Inl e
      | Inr j \<Rightarrow>
          (case dict_get j ''hits'' (JObj []) of
             Inl e \<Rightarrow> Inl e
           | Inr h \<Rightarrow>
               (case dict_get h ''hits'' (JArr []) of
                  Inl e \<Rightarrow> Inl e
                | Inr hits \<Rightarrow>
                    (case iterate hits of Inl e \<Rightarrow> Inl e | Inr hs \<Rightarrow> hit_chunks hs))))"

definition knn_search ::
  "config \<Rightarrow> http \<Rightarrow> call list \<Rightarrow> json \<Rightarrow> int \<Rightarrow> (error + json list) \<times> call list" where
  "knn_search cfg post calls vector k =
     (let url = AOSS_ENDPOINT cfg @ ''/'' @ INDEX_NAME cfg @ ''/_search'';
          query = JObj [(''size'', JNum (of_int k)),
                        (''query'', JObj [(''knn'', JObj [(''embedding'',
                            JObj [(''vector'', vector), (''k'', JNum (of_int k))])])])];
          calls' = calls @ [HttpPost url query]
      in case post url query of
           Inl e \<Rightarrow> (Inl e, calls')
         | Inr response \<Rightarrow>
             if status_code response \<noteq> 200 then (Inl Exception, calls')
             else (response_hits response, calls'))"

text \<open>
  \<open>generate_answer\<close>: the request body of the model family the identifier starts with,
  the request, and the answer's place in that family's response.
\<close>

definition generate_answer ::
  "bedrock \<Rightarrow> call list \<Rightarrow> string \<Rightarrow> string \<Rightarrow> (error + json) \<times> call list" where
  "generate_answer invoke_model calls prompt model_id =
     (case
        (if startswith model_id ''anthropic.claude'' then
           Inr (JObj [(''prompt'', JStr (''\<newline>\<newline>Human: '' @ prompt @ ''\<newline>\<newline>Assistant:'')),
                      (''max_tokens_to_sample'', JNum 512),
                      (''temperature'', JNum (1 / 2)),
                      (''top_k'', JNum 250),
                      (''top_p'', JNum (9 / 10)),
                      (''stop_sequences'', JArr [JStr ''\<newline>\<newline>Human:''])])
         else if startswith model_id ''amazon.titan-text'' then
           Inr (JObj [(''inputText'', JStr prompt),
                      (''textGenerationConfig'',
                         JObj [(''maxTokenCount'', JNum 512),
                               (''temperature'', JNum (1 / 2)),
                               (''topP'', JNum (9 / 10))])])
         else if startswith model_id ''mistral.mistral-7b'' then
           Inr (JObj [(''prompt'', JStr prompt),
                      (''max_tokens'', JNum 512),
                      (''temperature'', JNum (7 / 10)),
                      (''top_p'', JNum (9 / 10)),
                      (''stop'', JArr [])])
         else if startswith model_id ''cohere.command-r'' then
           Inr (JObj [(''prompt'', JStr prompt),
                      (''max_tokens'', JNum 512),
                      (''temperature'', JNum (7 / 10)),
                      (''p'', JNum (9 / 10)),
                      (''stop_sequences'', JArr []),
                      (''return_likelihoods'', JStr ''NONE'')])
         else Inl ValueError)
      of
        Inl e \<Rightarrow> (Inl e, calls)
      | Inr body \<Rightarrow>
          (let calls' = calls @ [InvokeModel model_id body] in
           case invoke_model model_id body of
             Inl e \<Rightarrow> (Inl e, calls')
           | Inr result \<Rightarrow>
               if startswith model_id ''anthropic.claude'' then
                 (getitem result ''completion'', calls')
               else if startswith model_id ''amazon.titan-text'' then
                 (case getitem result ''results'' of
                    Inl e \<Rightarrow> (Inl e, calls')
                  | Inr rs \<Rightarrow>
                      (case getitem0 rs of
                         Inl e \<Rightarrow> (Inl e, calls')
                       | Inr r \<Rightarrow> (getitem r ''outputText'', calls')))
               else if startswith model_id ''mistral.mistral-7b'' then
                 (case getitem result ''outputs'' of
                    Inl e \<Rightarrow> (Inl e, calls')
                  | Inr rs \<Rightarrow>
                      (case getitem0 rs of
                         Inl e \<Rightarrow> (Inl e, calls')
                       | Inr r \<Rightarrow> (getitem r ''text'', calls')))
               else if startswith model_id ''cohere.command-r'' then
                 (case getitem result ''generations'' of
                    Inl e \<Rightarrow> (Inl e, calls')
                  | Inr rs \<Rightarrow>
                      (case getitem0 rs of
                         Inl e \<Rightarrow> (Inl e, calls')
                       | Inr r \<Rightarrow> (getitem r ''text'', calls')))
               else (Inr JNull, calls')))"

text \<open>
  The API Gateway event: \<open>queryStringParameters\<close> is a dictionary of strings, or \<open>null\<close>
  (the gateway's value for a request without a query string), or the key is absent.
\<close>

datatype query_params = Absent | Null | Params "(string \<times> string) list"

record event =
  queryStringParameters :: query_params

text \<open>
  The handler's result. \<open>Dumps j\<close> is the string \<open>json.dumps(j)\<close>; the error response has
  no \<open>headers\<close> entry.
\<close>

datatype body = Plain string | Dumps json

record response =
  statusCode :: int
  headers :: "(string \<times> string) list option"
  body :: body

text \<open>\<open>params.get(key, default)\<close> on the value of \<open>event.get("queryStringParameters", {})\<close>.\<close>

fun params_get :: "query_params \<Rightarrow> string \<Rightarrow> string \<Rightarrow> error + string" where
  "params_get Absent key dflt = Inr dflt"
| "params_get Null key dflt = Inl AttributeError"
| "params_get (Params kvs) key dflt =
     (case map_of kvs key of None \<Rightarrow> Inr dflt | Some v \<Rightarrow> Inr v)"

text \<open>The prompt of the handler: lines 158 to 169, once the context chunks are there.\<close>

definition full_prompt :: "bool \<Rightarrow> string \<Rightarrow> string list \<Rightarrow> string" where
  "full_prompt use_rag question context_chunks =
     (if use_rag then
        ''Use the context below to answer the question.\<newline>Context:\<newline>''
          @ py_join ''\<newline>'' context_chunks
          @ ''\<newline>\<newline>Question: '' @ question @ ''\<newline>Answer:''
      else question)"

text \<open>The retrieval branch of the handler: embedding, search, and the join's type check.\<close>

definition retrieve_context ::
  "config \<Rightarrow> bedrock \<Rightarrow> http \<Rightarrow> call list \<Rightarrow> string \<Rightarrow> (error + string list) \<times> call list" where
  "retrieve_context cfg invoke_model post calls question =
     (case embed_text invoke_model calls question of
        (Inl e, calls1) \<Rightarrow> (Inl e, calls1)
      | (Inr vector, calls1) \<Rightarrow>
          (case knn_search cfg post calls1 vector 5 of
             (Inl e, calls2) \<Rightarrow> (Inl e, calls2)
           | (Inr context_chunks, calls2) \<Rightarrow> (strings_of context_chunks, calls2)))"

definition lambda_handler ::
  "config \<Rightarrow> bedrock \<Rightarrow> http \<Rightarrow> call list \<Rightarrow> event \<Rightarrow> (error + response) \<times> call list" where
  "lambda_handler cfg invoke_model post calls ev =
     (let params = queryStringParameters ev in
      case params_get params ''prompt'' [] of
        Inl e \<Rightarrow> (Inl e, calls)
      | Inr question \<Rightarrow>
      case params_get params ''model_id'' ''amazon.titan-text-lite-v1'' of
        Inl e \<Rightarrow> (Inl e, calls)
      | Inr model_id \<Rightarrow>
      case params_get params ''enable_rag'' ''false'' of
        Inl e \<Rightarrow> (Inl e, calls)
      | Inr enable_rag \<Rightarrow>
      let use_rag = (py_lower enable_rag = ''true'') in
      if question = [] then
        (Inr \<lparr>statusCode = 400, headers = None,
              body = Plain ''Missing 'prompt' query parameter''\<rparr>, calls)
      else
      case (if use_rag then retrieve_context cfg invoke_model post calls question
            else (Inr [], calls)) of
        (Inl e, calls1) \<Rightarrow> (Inl e, calls1)
      | (Inr context_chunks, calls1) \<Rightarrow>
      case generate_answer invoke_model calls1
             (full_prompt use_rag question context_chunks) model_id of
        (Inl e, calls2) \<Rightarrow> (Inl e, calls2)
      | (Inr (JStr answer), calls2) \<Rightarrow>
          (Inr \<lparr>statusCode = 200,
                headers = Some [(''Content-Type'', ''application/json'')],
                body = Dumps (JObj [(''answer'', JStr (py_strip answer))])\<rparr>, calls2)
      | (Inr _, calls2) \<Rightarrow> (Inl AttributeError, calls2))"


section \<open>Local query (local-faiss-demo/query\_rag.py)\<close>

text \<open>
  \<open>index.search(x, k)\<close> for one query row, giving the row \<open>I[0]\<close> of labels. FAISS is a
  library outside the repository; the model follows its documented behaviour for a flat
  index: \<open>k\<close> has to be positive and the query of the index's dimension, the row has
  exactly \<open>k\<close> labels, the nearest vector's slot first, and the label is \<open>-1\<close> where the
  index has no further vector. The distance is the parameter \<open>distance\<close>.
\<close>

definition faiss_search ::
  "('a list \<Rightarrow> 'a list \<Rightarrow> 'd::linorder) \<Rightarrow> 'a faiss_index \<Rightarrow> 'a list \<Rightarrow> int
    \<Rightarrow> error + int list" where
  "faiss_search distance idx q k =
     (if k \<le> 0 \<or> length q \<noteq> dim idx then Inl AssertionError
      else
        (let ranked = sort_key (\<lambda>i. distance q (vectors idx ! i)) [0..<length (vectors idx)];
             found = take (nat k) ranked
         in Inr (map int found @ replicate (nat k - length found) (- 1))))"

text \<open>\<open>xs[i]\<close> on a list: a negative index counts from the end.\<close>

definition list_getitem :: "'a list \<Rightarrow> int \<Rightarrow> error + 'a" where
  "list_getitem xs i =
     (if 0 \<le> i \<and> i < int (length xs) then Inr (xs ! nat i)
      else if i < 0 \<and> - int (length xs) \<le> i then Inr (xs ! nat (int (length xs) + i))
      else Inl IndexError)"

text \<open>The comprehension \<open>[metadata[i] for i in I[0]]\<close>.\<close>

fun lookup_all :: "'a list \<Rightarrow> int list \<Rightarrow> error + 'a list" where
  "lookup_all md [] = Inr []"
| "lookup_all md (i # is) =
     (case list_getitem md i of
        Inl e \<Rightarrow> Inl e
      | Inr m \<Rightarrow> (case lookup_all md is of Inl e \<Rightarrow> Inl e | Inr ms \<Rightarrow> Inr (m # ms)))"

definition TOP_K :: int where
  "TOP_K = 5"

definition retrieve_top_k ::
  "('a list \<Rightarrow> 'a list \<Rightarrow> 'd::linorder) \<Rightarrow> 'a faiss_index \<Rightarrow> 'a list \<Rightarrow> metadata list \<Rightarrow> int
    \<Rightarrow> error + metadata list" where
  "retrieve_top_k distance idx embedding md k =
     (case faiss_search distance idx embedding k of
        Inl e \<Rightarrow> Inl e
      | Inr I0 \<Rightarrow> lookup_all md I0)"

definition build_prompt :: "metadata list \<Rightarrow> string \<Rightarrow> string" where
  "build_prompt chunks question =
     (let context = py_join ''\<newline>\<newline>''
            (map (\<lambda>(i, c). ''['' @ py_str (int i + 1) @ ''] '' @ chunk c)
                 (zip [0..<length chunks] chunks))
      in ''You are a helpful assistant. Use the following context to answer the question.\<newline>\<newline>''
           @ ''Context:\<newline>'' @ context @ ''\<newline>\<newline>''
           @ ''Question: '' @ question @ ''\<newline>\<newline>Answer:'')"

definition call_bedrock_model ::
  "bedrock \<Rightarrow> call list \<Rightarrow> string \<Rightarrow> string \<Rightarrow> (error + json) \<times> call list" where
  "call_bedrock_model invoke_model calls prompt model_id =
     (case
        (if startswith model_id ''anthropic.claude'' then
           Inr (JObj [(''prompt'', JStr prompt),
                      (''max_tokens_to_sample'', JNum 300),
                      (''temperature'', JNum (7 / 10)),
                      (''stop_sequences'', JArr [JStr ''\<newline>\<newline>''])])
         else if startswith model_id ''amazon.titan-text'' then
           Inr (JObj [(''inputText'', JStr prompt)])
         else if startswith model_id ''mistral.'' then
           Inr (JObj [(''prompt'', JStr prompt),
                      (''max_tokens'', JNum 300),
                      (''temperature'', JNum (7 / 10))])
         else Inl ValueError)
      of
        Inl e \<Rightarrow> (Inl e, calls)
      | Inr request_body \<Rightarrow>
          (let calls' = calls @ [InvokeModel model_id request_body] in
           case invoke_model model_id request_body of
             Inl e \<Rightarrow> (Inl e, calls')
           | Inr response_body \<Rightarrow>
               if startswith model_id ''anthropic.claude'' then
                 (dict_get response_body ''completion'' (JStr ''[No output]''), calls')
               else if startswith model_id ''amazon.titan-text'' then
                 (case dict_get response_body ''results'' (JArr [JObj []]) of
                    Inl e \<Rightarrow> (Inl e, calls')
                  | Inr rs \<Rightarrow>
                      (case getitem0 rs of
                         Inl e \<Rightarrow> (Inl e, calls')
                       | Inr r \<Rightarrow> (dict_get r ''outputText'' (JStr ''[No output]''), calls')))
               else if startswith model_id ''mistral.'' then
                 (case dict_get response_body ''outputs'' (JArr [JObj []]) of
                    Inl e \<Rightarrow> (Inl e, calls')
                  | Inr rs \<Rightarrow>
                      (case getitem0 rs of
                         Inl e \<Rightarrow> (Inl e, calls')
                       | Inr r \<Rightarrow> (dict_get r ''text'' (JStr ''[No output]''), calls')))
               else (Inr (JStr ''[Unknown model output format]''), calls')))"

text \<open>
  The prompt one round of \<open>main\<close>'s loop builds for a non-empty question (lines 158 to
  167). \<open>get_embedding\<close>, the embedding request, is a parameter.
\<close>

definition main_prompt ::
  "('a list \<Rightarrow> 'a list \<Rightarrow> 'd::linorder) \<Rightarrow> 'a faiss_index \<Rightarrow> metadata list
    \<Rightarrow> (string \<Rightarrow> error + 'a list) \<Rightarrow> bool \<Rightarrow> string \<Rightarrow> error + string" where
  "main_prompt distance idx md get_embedding disable_rag question =
     (if disable_rag then
        Inr (''Answer the following question:\<newline>\<newline>Question: '' @ question
               @ ''\<newline>\<newline>Answer:'')
      else
        (case get_embedding question of
           Inl e \<Rightarrow> Inl e
         | Inr embedding \<Rightarrow>
             (case retrieve_top_k distance idx embedding md TOP_K of
                Inl e \<Rightarrow> Inl e
              | Inr top_chunks \<Rightarrow> Inr (build_prompt top_chunks question))))"

text \<open>
  One round of the loop for the line read from the console: \<open>None\<close> is the \<open>continue\<close>
  on an empty question, otherwise the answer or the exception that leaves the loop.
\<close>

definition main_round ::
  "('a list \<Rightarrow> 'a list \<Rightarrow> 'd::linorder) \<Rightarrow> 'a faiss_index \<Rightarrow> metadata list
    \<Rightarrow> (string \<Rightarrow> error + 'a list) \<Rightarrow> bedrock \<Rightarrow> bool \<Rightarrow> string \<Rightarrow> call list \<Rightarrow> string
    \<Rightarrow> (error + json) option \<times> call list" where
  "main_round distance idx md get_embedding invoke_model disable_rag model_id calls line =
     (let question = py_strip line in
      if question = [] then (None, calls)
      else
        (case main_prompt distance idx md get_embedding disable_rag question of
           Inl e \<Rightarrow> (Some (Inl e), calls)
         | Inr prompt \<Rightarrow>
             (case call_bedrock_model invoke_model calls prompt model_id of
                (answer, calls') \<Rightarrow> (Some answer, calls'))))"

section \<open>Managed-search ingest (aoss-serverless-demo/ec2-utils/embd\_to\_aoss.py)\<close>

record args =
  index_name :: string
  aoss_endpoint :: string
  bedrock_model_id :: string

definition aoss_embed_text ::
  "args \<Rightarrow> bedrock \<Rightarrow> call list \<Rightarrow> string \<Rightarrow> (error + json) \<times> call list" where
  "aoss_embed_text a invoke_model calls txt =
     (let request_body = JObj [(''inputText'', JStr txt)];
          calls' = calls @ [InvokeModel (bedrock_model_id a) request_body]
      in case invoke_model (bedrock_model_id a) request_body of
           Inl e \<Rightarrow> (Inl e, calls')
         | Inr result \<Rightarrow> (getitem result ''embedding'', calls'))"

text \<open>
  \<open>index_chunk\<close>: a response other than 200 or 201 is printed, not raised. The result
  tells whether the service accepted the document.
\<close>

definition index_chunk ::
  "args \<Rightarrow> http \<Rightarrow> call list \<Rightarrow> string \<Rightarrow> json \<Rightarrow> string \<Rightarrow> (error + bool) \<times> call list" where
  "index_chunk a post calls c vector src =
     (let url = aoss_endpoint a @ ''/'' @ index_name a @ ''/_doc'';
          payload = JObj [(''chunk'', JStr c), (''embedding'', vector), (''source'', JStr src)];
          calls' = calls @ [HttpPost url payload]
      in case post url payload of
           Inl e \<Rightarrow> (Inl e, calls')
         | Inr r \<Rightarrow> (Inr (status_code r \<in> set [200, 201]), calls'))"

text \<open>
  The \<open>for i, chunk in enumerate(chunks)\<close> loop of \<open>process_files\<close> with its
  \<open>try ... except Exception\<close>: an exception of the embedding or of the indexing is
  printed and the loop goes on. The result is the requests made.
\<close>

fun ingest_chunks ::
  "args \<Rightarrow> bedrock \<Rightarrow> http \<Rightarrow> string \<Rightarrow> string list \<Rightarrow> call list \<Rightarrow> call list" where
  "ingest_chunks a invoke_model post key [] calls = calls"
| "ingest_chunks a invoke_model post key (c # cs) calls =
     (if length (py_strip c) < 20 then ingest_chunks a invoke_model post key cs calls
      else
        (case aoss_embed_text a invoke_model calls c of
           (Inl e, calls1) \<Rightarrow> ingest_chunks a invoke_model post key cs calls1
         | (Inr embedding, calls1) \<Rightarrow>
             (case index_chunk a post calls1 c embedding key of
                (Inl e, calls2) \<Rightarrow> ingest_chunks a invoke_model post key cs calls2
              | (Inr ok, calls2) \<Rightarrow> ingest_chunks a invoke_model post key cs calls2)))"

text \<open>The chunks of a file that reach the embedding call.\<close>

definition long_chunks :: "string list \<Rightarrow> string list" where
  "long_chunks cs = filter (\<lambda>c. \<not> length (py_strip c) < 20) cs"

text \<open>The embedding requests among the requests made.\<close>

definition embedded_texts :: "call list \<Rightarrow> json list" where
  "embedded_texts calls =
     concat (map (\<lambda>c. case c of InvokeModel m b \<Rightarrow> [b] | HttpPost u b \<Rightarrow> []) calls)"

section \<open>Managed-search query (aoss-serverless-demo/ec2-utils/query\_rag.py)\<close>

definition aoss_build_prompt :: "string \<Rightarrow> string list \<Rightarrow> string" where
  "aoss_build_prompt user_question context_chunks =
     (let context_block = py_join ''\<newline>\<newline>'' context_chunks
      in ''Use the context below to answer the question.\<newline>\<newline>Context:\<newline>''
           @ context_block @ ''\<newline>\<newline>Question: '' @ user_question @ ''\<newline>Answer:'')"

text \<open>The prompt of one round of the command-line loop (lines 139 to 144).\<close>

definition aoss_main_prompt :: "bool \<Rightarrow> string \<Rightarrow> string list \<Rightarrow> string" where
  "aoss_main_prompt enable_rag question context =
     (if enable_rag then aoss_build_prompt question context else question)"

section \<open>Reading chunks back\<close>

text \<open>
  The word sequence of a list of chunks without the duplication of the overlap: the words
  of the first chunk, then the words of every later chunk but its first \<open>ov\<close>.
\<close>

fun remove_overlap :: "nat \<Rightarrow> 'a list list \<Rightarrow> 'a list" where
  "remove_overlap ov [] = []"
| "remove_overlap ov (c # cs) = c @ concat (map (drop ov) cs)"

section \<open>Words, joins, slices and ranges\<close>

lemma chunk_loop_eq:
  "chunk_loop words mw is acc =
     acc @ filter (\<lambda>c. c \<noteq> []) (map (\<lambda>i. py_join '' '' (py_slice words i (i + mw))) is)"
  by (induction "is" arbitrary: acc) (simp_all add: Let_def)

lemma split_from_words:
  "\<forall>c\<in>set cur. \<not> isspace c \<Longrightarrow> \<forall>w\<in>set (split_from cur s). good_word w"
proof (induction s arbitrary: cur)
  case Nil
  then show ?case by (simp add: good_word_def)
next
  case (Cons c cs)
  have nil: "\<forall>w\<in>set (split_from [] cs). good_word w"
    by (rule Cons.IH) simp
  show ?case
  proof (cases "isspace c")
    case True
    with nil Cons.prems show ?thesis by (simp add: good_word_def)
  next
    case False
    with Cons.prems have "\<forall>w\<in>set (split_from (cur @ [c]) cs). good_word w"
      by (intro Cons.IH) simp
    with False show ?thesis by simp
  qed
qed

lemma py_split_words: "\<forall>w\<in>set (py_split s). good_word w"
  unfolding py_split_def by (rule split_from_words) simp

lemma split_from_nospace:
  "\<forall>c\<in>set w. \<not> isspace c \<Longrightarrow> split_from cur (w @ s) = split_from (cur @ w) s"
  by (induction w arbitrary: cur) simp_all

lemma isspace_space [simp]: "isspace CHR '' ''"
  by (simp add: isspace_def)

lemma split_join:
  "\<forall>w\<in>set ws. good_word w \<Longrightarrow> py_split (py_join '' '' ws) = ws"
proof (induction "'' ''" ws rule: py_join.induct)
  case 1
  then show ?case by (simp add: py_split_def)
next
  case (2 x)
  then have "split_from [] (x @ []) = split_from ([] @ x) []"
    by (intro split_from_nospace) (simp add: good_word_def)
  with 2 show ?case by (simp add: py_split_def good_word_def)
next
  case (3 x y ys)
  then have x: "good_word x" and rest: "\<forall>w\<in>set (y # ys). good_word w" by simp_all
  have "split_from [] (x @ '' '' @ py_join '' '' (y # ys))
        = split_from ([] @ x) ('' '' @ py_join '' '' (y # ys))"
    using x by (intro split_from_nospace) (simp add: good_word_def)
  also have "\<dots> = x # split_from [] (py_join '' '' (y # ys))"
    using x by (simp add: good_word_def)
  also have "\<dots> = x # y # ys"
    using 3 rest by (simp add: py_split_def)
  finally show ?case by (simp add: py_split_def)
qed

lemma join_eq_Nil:
  "\<forall>w\<in>set ws. good_word w \<Longrightarrow> py_join '' '' ws = [] \<longleftrightarrow> ws = []"
  by (induction "'' ''" ws rule: py_join.induct) (simp_all add: good_word_def)

lemma py_slice_window:
  "0 \<le> i \<Longrightarrow> 0 \<le> m \<Longrightarrow> py_slice xs i (i + m) = take (nat m) (drop (nat i) xs)"
  by (cases "nat i \<le> length xs")
     (auto simp: py_slice_def slice_bound_def Let_def min_def nat_add_distrib)

lemma py_range_positive_step:
  assumes "0 < step"
  shows "py_range 0 (int L) step
         = Inr (map (\<lambda>k. int k * step) [0..<(L + nat step - 1) div nat step])"
proof -
  have "int L + step - 1 = int (L + nat step - 1)" using assms by simp
  then have "(int L - 0 + step - 1) div step = int ((L + nat step - 1) div nat step)"
    using assms by (simp add: zdiv_int)
  then show ?thesis using assms by (simp add: py_range_def)
qed

lemma ceil_div_index:
  assumes "k < (L + s - 1) div s" and "0 < (s::nat)"
  shows "k * s < L"
proof (rule ccontr)
  assume "\<not> k * s < L"
  then have "L + s - 1 < (k + 1) * s" using assms(2) by simp
  then have "(L + s - 1) div s < k + 1"
    using assms(2) by (simp add: less_mult_imp_div_less)
  with assms(1) show False by simp
qed

lemma int_div_nonpos:
  fixes a b :: int
  assumes "a < b" and "0 < b"
  shows "a div b \<le> 0"
proof -
  have "a div b \<le> (b - 1) div b"
    using assms by (intro zdiv_mono1) simp_all
  also have "(b - 1) div b = 0"
    using assms by (simp add: div_pos_pos_trivial)
  finally show ?thesis .
qed

lemma py_range_negative_step:
  assumes "step < 0" and "0 \<le> n"
  shows "py_range 0 n step = Inr []"
proof -
  have "(0 - n - step - 1) div (- step) \<le> 0"
    using assms by (intro int_div_nonpos) simp_all
  then show ?thesis using assms by (simp add: py_range_def)
qed

section \<open>The windows of the windowed chunker\<close>

lemma window_nonempty:
  assumes "k * s < length ws" and "0 < m" and "\<forall>w\<in>set ws. good_word w"
  shows "py_join '' '' (take m (drop (k * s) ws)) \<noteq> []"
proof -
  have "take m (drop (k * s) ws) \<noteq> []" using assms(1,2) by simp
  moreover have "\<forall>w\<in>set (take m (drop (k * s) ws)). good_word w"
    using assms(3) by (meson in_set_dropD in_set_takeD)
  ultimately show ?thesis by (simp add: join_eq_Nil)
qed

lemma chunk_text_windows:
  assumes "0 < max_words" and "overlap < max_words"
  shows "chunk_text text max_words overlap =
         Inr (map (\<lambda>k. py_join '' '' (take (nat max_words)
                          (drop (k * nat (max_words - overlap)) (py_split text))))
                  [0..<(length (py_split text) + nat (max_words - overlap) - 1)
                        div nat (max_words - overlap)])"
proof -
  define ws where "ws = py_split text"
  define s where "s = nat (max_words - overlap)"
  define n where "n = (length ws + s - 1) div s"
  have s: "0 < s" and step: "0 < max_words - overlap" "int s = max_words - overlap"
    using assms by (simp_all add: s_def)
  have range: "py_range 0 (int (length ws)) (max_words - overlap)
               = Inr (map (\<lambda>k. int k * (max_words - overlap)) [0..<n])"
    using py_range_positive_step [OF step(1), of "length ws"] by (simp add: n_def s_def)
  have slice: "py_join '' '' (py_slice ws (int k * (max_words - overlap))
                               (int k * (max_words - overlap) + max_words))
               = py_join '' '' (take (nat max_words) (drop (k * s) ws))" for k
  proof -
    have "nat (int k * (max_words - overlap)) = k * s"
      using step by (simp add: nat_mult_distrib s_def)
    moreover have "0 \<le> int k * (max_words - overlap)" using step by simp
    ultimately show ?thesis using assms(1) by (simp add: py_slice_window)
  qed
  have keep: "filter (\<lambda>c. c \<noteq> [])
                (map (\<lambda>k. py_join '' '' (take (nat max_words) (drop (k * s) ws))) [0..<n])
              = map (\<lambda>k. py_join '' '' (take (nat max_words) (drop (k * s) ws))) [0..<n]"
  proof (rule filter_True, clarsimp)
    fix k assume "k < n" and e: "py_join '' '' (take (nat max_words) (drop (k * s) ws)) = []"
    then have "k * s < length ws" using s by (simp add: n_def ceil_div_index)
    then have "py_join '' '' (take (nat max_words) (drop (k * s) ws)) \<noteq> []"
      using assms(1) py_split_words by (intro window_nonempty) (simp_all add: ws_def)
    with e show False by simp
  qed
  have "chunk_text text max_words overlap
        = Inr (filter (\<lambda>c. c \<noteq> [])
                (map (\<lambda>k. py_join '' '' (take (nat max_words) (drop (k * s) ws))) [0..<n]))"
    using range slice
    by (simp add: chunk_text_def Let_def chunk_loop_eq ws_def [symmetric] comp_def)
  with keep show ?thesis by (simp add: ws_def s_def n_def)
qed

section \<open>Parameter validation of the windowed chunker\<close>

text \<open>
  Claim C8, as the code has it. \<open>chunk_text\<close> has no parameter check of its own. With
  \<open>overlap = max_words\<close> the step of the range is zero and \<open>range\<close> raises \<open>ValueError\<close>
  before any chunk is built; with \<open>overlap > max_words\<close> the step is negative, the range
  is empty and the call returns the empty list without an error; with
  \<open>overlap < max_words\<close> the call never raises.
\<close>

theorem chunk_text_parameter_check:
  "(overlap = max_words \<longrightarrow> chunk_text text max_words overlap = Inl ValueError) \<and>
   (max_words < overlap \<longrightarrow> chunk_text text max_words overlap = Inr []) \<and>
   (overlap < max_words \<longrightarrow> (\<exists>chunks. chunk_text text max_words overlap = Inr chunks))"
proof (intro conjI impI)
  assume "overlap = max_words"
  then show "chunk_text text max_words overlap = Inl ValueError"
    by (simp add: chunk_text_def py_range_def)
next
  assume "max_words < overlap"
  then have "py_range 0 (int (length (py_split text))) (max_words - overlap) = Inr []"
    by (intro py_range_negative_step) simp_all
  then show "chunk_text text max_words overlap = Inr []"
    by (simp add: chunk_text_def)
next
  assume "overlap < max_words"
  then show "\<exists>chunks. chunk_text text max_words overlap = Inr chunks"
    by (simp add: chunk_text_def py_range_def Let_def)
qed

text \<open>The three cases at concrete parameters.\<close>

theorem chunk_text_parameter_check_witness:
  "chunk_text ''a b c'' 2 2 = Inl ValueError \<and>
   chunk_text ''a b c'' 2 3 = Inr [] \<and>
   (\<exists>chunks. chunk_text ''a b c'' 2 1 = Inr chunks)"
  using chunk_text_parameter_check [of 2 2 "''a b c''"]
        chunk_text_parameter_check [of 3 2 "''a b c''"]
        chunk_text_parameter_check [of 1 2 "''a b c''"]
  by simp

text \<open>
  With an overlap above \<open>max_words\<close> the range is empty: the call returns the empty list
  and raises nothing.
\<close>

theorem chunk_text_overlap_above_max_words_returns:
  "chunk_text ''a b c'' 2 3 = Inr []"
  by code_simp

section \<open>The overlap of consecutive chunks\<close>

lemma py_split_window:
  "py_split (py_join '' '' (take m (drop k (py_split text)))) = take m (drop k (py_split text))"
proof (rule split_join)
  show "\<forall>w\<in>set (take m (drop k (py_split text))). good_word w"
    using py_split_words by (meson in_set_dropD in_set_takeD)
qed

lemma chunk_text_default_windows:
  "chunk_text text 200 50 =
     Inr (map (\<lambda>k. py_join '' '' (take 200 (drop (k * 150) (py_split text))))
              [0..<(length (py_split text) + 149) div 150])"
  using chunk_text_windows [of 200 50 "text"] by (simp add: add.commute)

text \<open>
  Claim C2. With \<open>max_words = 200\<close> and \<open>overlap = 50\<close> a text of more than 200 words gives
  at least two chunks; chunk \<open>i\<close> holds the words from position \<open>150 * i\<close> on, at most 200
  of them; the words of a chunk after its first 150 are the first words of the next
  chunk, and they are exactly 50 (the chunk itself having 200 words) whenever the next
  chunk is not the final one.
\<close>

theorem chunk_text_default_overlap:
  assumes "200 < length (py_split text)"
  shows "\<exists>chunks. chunk_text text 200 50 = Inr chunks \<and> 2 \<le> length chunks \<and>
           (\<forall>i. i < length chunks \<longrightarrow>
                py_split (chunks ! i) = take 200 (drop (150 * i) (py_split text))) \<and>
           (\<forall>i. i + 1 < length chunks \<longrightarrow>
                drop 150 (py_split (chunks ! i)) = take 50 (py_split (chunks ! (i + 1)))) \<and>
           (\<forall>i. i + 2 < length chunks \<longrightarrow>
                length (py_split (chunks ! i)) = 200 \<and>
                length (drop 150 (py_split (chunks ! i))) = 50)"
proof -
  define ws where "ws = py_split text"
  define n where "n = (length ws + 149) div 150"
  define chunks where
    "chunks = map (\<lambda>k. py_join '' '' (take 200 (drop (k * 150) ws))) [0..<n]"
  have run: "chunk_text text 200 50 = Inr chunks"
    by (simp add: chunk_text_default_windows chunks_def n_def ws_def)
  have len: "length chunks = n" by (simp add: chunks_def)
  have n2: "2 \<le> n" using assms by (simp add: n_def ws_def)
  have nth: "py_split (chunks ! i) = take 200 (drop (150 * i) ws)" if "i < n" for i
    using that by (simp add: chunks_def ws_def py_split_window mult.commute)
  have inside: "i * 150 < length ws" if "i < n" for i
    using that ceil_div_index [of i "length ws" 150] by (simp add: n_def)
  have share: "drop 150 (py_split (chunks ! i)) = take 50 (py_split (chunks ! (i + 1)))"
    if "i + 1 < n" for i
  proof -
    have "drop 150 (take 200 (drop (150 * i) ws)) = take 50 (drop (150 * (i + 1)) ws)"
      by (simp add: drop_take add.commute)
    moreover have "take 50 (take 200 (drop (150 * (i + 1)) ws)) = take 50 (drop (150 * (i + 1)) ws)"
      by simp
    ultimately show ?thesis using that nth [of i] nth [of "i + 1"] by simp
  qed
  have full: "length (py_split (chunks ! i)) = 200 \<and> length (drop 150 (py_split (chunks ! i))) = 50"
    if "i + 2 < n" for i
  proof -
    have "(i + 2) * 150 < length ws" using that by (intro inside)
    then have "200 \<le> length ws - 150 * i" by simp
    then show ?thesis using that nth [of i] by simp
  qed
  show ?thesis
    using run len n2 nth share full by (intro exI [of _ chunks]) (simp add: ws_def)
qed

text \<open>
  A text of 401 words: two chunks of 200 words and a final chunk of 101, each sharing 50
  words with the chunk before it.
\<close>

theorem chunk_text_default_overlap_witness:
  "200 < length (py_split (py_join '' '' (replicate 401 ''ab''))) \<and>
   (\<exists>chunks. chunk_text (py_join '' '' (replicate 401 ''ab'')) 200 50 = Inr chunks \<and>
      length chunks = 3 \<and>
      py_split (chunks ! 0) = replicate 200 ''ab'' \<and>
      py_split (chunks ! 1) = replicate 200 ''ab'' \<and>
      py_split (chunks ! 2) = replicate 101 ''ab'' \<and>
      drop 150 (py_split (chunks ! 0)) = take 50 (py_split (chunks ! 1)) \<and>
      length (drop 150 (py_split (chunks ! 0))) = 50 \<and>
      drop 150 (py_split (chunks ! 1)) = take 50 (py_split (chunks ! 2)))"
proof -
  let ?text = "py_join '' '' (replicate 401 ''ab'')"
  have ws: "py_split ?text = replicate 401 ''ab''"
    by (rule split_join) (simp add: good_word_def isspace_def)
  have h: "200 < length (py_split ?text)"
    by (simp only: ws length_replicate)
  from chunk_text_default_overlap [OF h] obtain chunks where
    run: "chunk_text ?text 200 50 = Inr chunks"
    and nth: "\<forall>i. i < length chunks \<longrightarrow>
                py_split (chunks ! i) = take 200 (drop (150 * i) (py_split ?text))"
    and share: "\<forall>i. i + 1 < length chunks \<longrightarrow>
                drop 150 (py_split (chunks ! i)) = take 50 (py_split (chunks ! (i + 1)))"
    and full: "\<forall>i. i + 2 < length chunks \<longrightarrow>
                length (py_split (chunks ! i)) = 200 \<and>
                length (drop 150 (py_split (chunks ! i))) = 50"
    by blast
  have "chunk_text ?text 200 50
        = Inr (map (\<lambda>k. py_join '' '' (take 200 (drop (k * 150) (py_split ?text))))
                   [0..<(length (py_split ?text) + 149) div 150])"
    by (rule chunk_text_default_windows)
  with run have "chunks = map (\<lambda>k. py_join '' '' (take 200 (drop (k * 150) (py_split ?text))))
                   [0..<(length (py_split ?text) + 149) div 150]"
    by simp
  then have "length chunks = length [0..<(length (py_split ?text) + 149) div 150]"
    by (simp only: length_map)
  then have "length chunks = (length (py_split ?text) + 149) div 150"
    by (simp only: length_upt diff_zero)
  then have len: "length chunks = 3"
    by (simp only: ws length_replicate)
  have c0: "py_split (chunks ! 0) = replicate 200 ''ab''"
    using nth [rule_format, of 0] len by (simp add: ws)
  have c1: "py_split (chunks ! 1) = replicate 200 ''ab''"
    using nth [rule_format, of 1] len by (simp add: ws)
  have c2: "py_split (chunks ! 2) = replicate 101 ''ab''"
    using nth [rule_format, of 2] len by (simp add: ws)
  have s0: "drop 150 (py_split (chunks ! 0)) = take 50 (py_split (chunks ! 1))"
    using share [rule_format, of 0] len by simp
  have s1: "drop 150 (py_split (chunks ! 1)) = take 50 (py_split (chunks ! 2))"
    using share [rule_format, of 1] len by (simp add: numeral_2_eq_2)
  have f0: "length (drop 150 (py_split (chunks ! 0))) = 50"
    using full [rule_format, of 0] len by simp
  from h run len c0 c1 c2 s0 f0 s1 show ?thesis by blast
qed

section \<open>Coverage of the text by its chunks\<close>

lemma concat_strides:
  "concat (map (\<lambda>k. take s (drop (k * s) xs)) [0..<n]) = take (n * s) xs"
proof (induction n)
  case 0
  then show ?case by simp
next
  case (Suc n)
  have "take (n * s) xs @ take s (drop (n * s) xs) = take (n * s + s) xs"
    by (simp add: take_add)
  with Suc show ?case by (simp add: add.commute)
qed

lemma ceil_div_covers:
  assumes "0 < (s::nat)"
  shows "L \<le> ((L + s - 1) div s) * s"
proof -
  have "L + s - 1 < ((L + s - 1) div s) * s + s"
    using assms by (metis add.commute div_mult_mod_eq mod_less_divisor add_less_cancel_left mult.commute)
  then show ?thesis using assms by simp
qed

lemma windows_remove_overlap:
  fixes ws :: "'a list"
  assumes "ov < m" and "n = (length ws + (m - ov) - 1) div (m - ov)"
  shows "remove_overlap ov (map (\<lambda>k. take m (drop (k * (m - ov)) ws)) [0..<n]) = ws"
proof (cases n)
  case 0
  have "length ws \<le> n * (m - ov)"
    using assms ceil_div_covers [of "m - ov" "length ws"] by simp
  with 0 show ?thesis by simp
next
  case (Suc n')
  define s where "s = m - ov"
  have s: "0 < s" "s \<le> m" "ov + s = m" using assms(1) by (simp_all add: s_def)
  have cover: "length ws \<le> n * s"
    using assms s(1) ceil_div_covers [of s "length ws"] by (simp add: s_def)
  have up: "[0..<Suc n'] = 0 # map Suc [0..<n']"
    by (simp add: upt_conv_Cons map_Suc_upt)
  have later: "drop ov (take m (drop (Suc j * s) ws)) = take s (drop (j * s) (drop m ws))" for j
  proof -
    have "drop ov (take m (drop (Suc j * s) ws)) = take (m - ov) (drop (ov + Suc j * s) ws)"
      by (simp add: drop_take add.commute)
    also have "ov + Suc j * s = j * s + m" using s(3) by simp
    finally show ?thesis by (simp add: s_def add.commute)
  qed
  have "remove_overlap ov (map (\<lambda>k. take m (drop (k * s) ws)) [0..<Suc n'])
        = take m ws @ concat (map (\<lambda>j. take s (drop (j * s) (drop m ws))) [0..<n'])"
    unfolding up by (simp add: comp_def later del: mult_Suc)
  also have "\<dots> = take m ws @ take (n' * s) (drop m ws)"
    by (simp only: concat_strides)
  also have "take (n' * s) (drop m ws) = drop m ws"
  proof -
    have "length ws \<le> n' * s + s" using cover Suc by simp
    then have "length ws - m \<le> n' * s" using s(2) by simp
    then show ?thesis by simp
  qed
  finally show ?thesis using Suc by (simp add: s_def)
qed

lemma windows_cover_position:
  fixes ws :: "'a list"
  assumes "0 < s" and "s \<le> m" and "j < length ws"
  shows "j mod s < length (take m (drop (j div s * s) ws)) \<and>
         take m (drop (j div s * s) ws) ! (j mod s) = ws ! j"
proof -
  have eq: "j div s * s + j mod s = j" by simp
  have lt: "j mod s < m" using assms(1,2) by (meson mod_less_divisor less_le_trans)
  have "j mod s < length ws - j div s * s" using assms(3) eq by linarith
  with lt show ?thesis using eq by (simp add: add.commute)
qed

lemma split_from_skip: "split_from [] (dropWhile isspace s) = split_from [] s"
  by (induction s) simp_all

lemma split_from_separator:
  "isspace c \<Longrightarrow> split_from cur (a @ c # b) = split_from cur a @ split_from [] b"
  by (induction a arbitrary: cur) simp_all

lemma py_split_join:
  "py_split (py_join '' '' xs) = concat (map py_split xs)"
proof (induction "'' ''" xs rule: py_join.induct)
  case 1
  then show ?case by (simp add: py_split_def)
next
  case (2 x)
  then show ?case by simp
next
  case (3 x y ys)
  have "split_from [] (x @ CHR '' '' # py_join '' '' (y # ys))
        = split_from [] x @ split_from [] (py_join '' '' (y # ys))"
    by (rule split_from_separator) simp
  with 3 show ?case by (simp add: py_split_def)
qed

lemma re_split_from_words:
  "concat (map py_split (re_split_from cur s)) = py_split (cur @ s)"
proof (induction cur s rule: re_split_from.induct)
  case (1 cur)
  then show ?case by simp
next
  case (2 cur c cs)
  show ?case
  proof (cases "isspace c \<and> cur \<noteq> [] \<and> last cur \<in> set ''.!?''")
    case True
    then have "concat (map py_split (re_split_from cur (c # cs)))
               = py_split cur @ py_split (dropWhile isspace cs)"
      using 2(1) by simp
    also have "\<dots> = split_from [] cur @ split_from [] cs"
      by (simp add: py_split_def split_from_skip)
    also have "\<dots> = py_split (cur @ c # cs)"
      using True by (simp add: split_from_separator py_split_def)
    finally show ?thesis .
  next
    case False
    then have step: "re_split_from cur (c # cs) = re_split_from (cur @ [c]) cs"
      by auto
    have "concat (map py_split (re_split_from (cur @ [c]) cs)) = py_split ((cur @ [c]) @ cs)"
      using False by (intro 2(2)) 
    with step show ?thesis by simp
  qed
qed

lemma sentence_loop_words:
  "sentence_loop max_words ss chunks current count = (chunks', current', count') \<Longrightarrow>
   concat (map py_split chunks') @ concat (map py_split current')
   = concat (map py_split chunks) @ concat (map py_split current) @ concat (map py_split ss)"
proof (induction ss arbitrary: chunks current count)
  case Nil
  then show ?case by simp
next
  case (Cons s ss)
  show ?case
  proof (cases "count + int (length (py_split s)) > max_words")
    case True
    with Cons.prems have
      "sentence_loop max_words ss (chunks @ [py_join '' '' current]) [s]
         (int (length (py_split s))) = (chunks', current', count')"
      by (simp add: Let_def)
    from Cons.IH [OF this] show ?thesis by (simp add: py_split_join)
  next
    case False
    with Cons.prems have
      "sentence_loop max_words ss chunks (current @ [s])
         (count + int (length (py_split s))) = (chunks', current', count')"
      by (simp add: Let_def)
    from Cons.IH [OF this] show ?thesis by simp
  qed
qed

lemma chunk_text_aoss_words:
  "concat (map py_split (chunk_text_aoss text max_words)) = py_split text"
proof -
  obtain chunks' current' count' where
    loop: "sentence_loop max_words (re_split_sentences text) [] [] 0 = (chunks', current', count')"
    by (metis prod_cases3)
  have "concat (map py_split (chunk_text_aoss text max_words))
        = concat (map py_split chunks') @ concat (map py_split current')"
    using loop by (simp add: chunk_text_aoss_def py_split_join)
  also have "\<dots> = concat (map py_split (re_split_sentences text))"
    using sentence_loop_words [OF loop] by simp
  also have "\<dots> = py_split text"
    by (simp add: re_split_sentences_def re_split_from_words)
  finally show ?thesis .
qed

lemma re_split_from_no_terminator:
  "\<forall>c\<in>set (cur @ s). c \<notin> set ''.!?'' \<Longrightarrow> re_split_from cur s = [cur @ s]"
proof (induction cur s rule: re_split_from.induct)
  case (1 cur)
  then show ?case by simp
next
  case (2 cur c cs)
  have "\<not> (isspace c \<and> cur \<noteq> [] \<and> last cur \<in> set ''.!?'')"
    using 2(3) by (metis Un_iff last_in_set set_append)
  moreover from this have "re_split_from (cur @ [c]) cs = [(cur @ [c]) @ cs]"
    using 2(2,3) by simp
  ultimately show ?case by simp
qed

lemma chunk_text_aoss_long_sentence:
  assumes "\<forall>c\<in>set text. c \<notin> set ''.!?''" and "max_words < int (length (py_split text))"
  shows "chunk_text_aoss text max_words = [[], text]"
proof -
  have "re_split_sentences text = [text]"
    using assms(1) re_split_from_no_terminator [of "[]" "text"]
    by (simp add: re_split_sentences_def)
  then show ?thesis using assms(2) by (simp add: chunk_text_aoss_def Let_def)
qed

lemma ceil_div_position:
  assumes "0 < (s::nat)" and "j < L"
  shows "j div s < (L + s - 1) div s"
proof (rule ccontr)
  assume "\<not> j div s < (L + s - 1) div s"
  then have "(L + s - 1) div s \<le> j div s" by (rule leI)
  then have "(L + s - 1) div s * s \<le> j div s * s" by (rule mult_le_mono1)
  also have "\<dots> \<le> j" by (rule div_times_less_eq_dividend)
  finally have "(L + s - 1) div s * s \<le> j" .
  moreover have "L \<le> (L + s - 1) div s * s" using assms(1) by (rule ceil_div_covers)
  ultimately show False using assms(2) by linarith
qed

text \<open>
  Claim C4, with the overlap not negative. For \<open>0 \<le> overlap < max_words\<close> the windowed
  chunker returns chunks whose words, the first \<open>overlap\<close> words of every chunk after the
  first removed, are the words of the text in order, and every word of the text is in
  some chunk. The chunks of the sentence-aware chunker have no overlap: their words,
  one chunk after the other, are the words of the text, for every word limit.
\<close>

theorem chunks_cover_text:
  assumes "0 \<le> overlap" and "overlap < max_words"
  shows "(\<exists>chunks. chunk_text text max_words overlap = Inr chunks \<and>
            remove_overlap (nat overlap) (map py_split chunks) = py_split text \<and>
            (\<forall>j. j < length (py_split text) \<longrightarrow>
                 (\<exists>i. i < length chunks \<and> py_split text ! j \<in> set (py_split (chunks ! i))))) \<and>
         concat (map py_split (chunk_text_aoss text limit)) = py_split text \<and>
         (\<forall>j. j < length (py_split text) \<longrightarrow>
              (\<exists>c. c \<in> set (chunk_text_aoss text limit) \<and> py_split text ! j \<in> set (py_split c)))"
proof (intro conjI)
  define ws where "ws = py_split text"
  define m where "m = nat max_words"
  define ov where "ov = nat overlap"
  define s where "s = m - ov"
  define n where "n = (length ws + s - 1) div s"
  define chunks where "chunks = map (\<lambda>k. py_join '' '' (take m (drop (k * s) ws))) [0..<n]"
  have s: "0 < s" "s \<le> m" "ov < m" "nat (max_words - overlap) = s"
    using assms by (simp_all add: s_def m_def ov_def nat_diff_distrib)
  have run: "chunk_text text max_words overlap = Inr chunks"
    using assms s(4) chunk_text_windows [of max_words overlap "text"]
    by (simp add: chunks_def n_def ws_def m_def)
  have len: "length chunks = n" by (simp add: chunks_def)
  have nth: "py_split (chunks ! i) = take m (drop (i * s) ws)" if "i < n" for i
    using that by (simp add: chunks_def ws_def py_split_window)
  have "map py_split chunks = map (\<lambda>k. take m (drop (k * s) ws)) [0..<n]"
    by (simp add: chunks_def ws_def py_split_window comp_def)
  then have whole: "remove_overlap ov (map py_split chunks) = ws"
    using s(3) windows_remove_overlap [of ov m n ws] by (simp add: n_def s_def)
  have each: "\<exists>i. i < length chunks \<and> ws ! j \<in> set (py_split (chunks ! i))"
    if "j < length ws" for j
  proof -
    have i: "j div s < n" unfolding n_def using s(1) that by (rule ceil_div_position)
    have pos: "j mod s < length (take m (drop (j div s * s) ws)) \<and>
          take m (drop (j div s * s) ws) ! (j mod s) = ws ! j"
      using s(1,2) that by (rule windows_cover_position)
    from pos have "take m (drop (j div s * s) ws) ! (j mod s) \<in> set (take m (drop (j div s * s) ws))"
      by (intro nth_mem) simp
    with pos have "ws ! j \<in> set (take m (drop (j div s * s) ws))"
      by simp
    then have "ws ! j \<in> set (py_split (chunks ! (j div s)))"
      using nth [OF i] by simp
    with i len show ?thesis by (intro exI [of _ "j div s"]) simp
  qed
  have all: "\<forall>j. j < length ws \<longrightarrow>
               (\<exists>i. i < length chunks \<and> ws ! j \<in> set (py_split (chunks ! i)))"
    using each by simp
  show "\<exists>chunks. chunk_text text max_words overlap = Inr chunks \<and>
          remove_overlap (nat overlap) (map py_split chunks) = py_split text \<and>
          (\<forall>j. j < length (py_split text) \<longrightarrow>
               (\<exists>i. i < length chunks \<and> py_split text ! j \<in> set (py_split (chunks ! i))))"
  proof (intro exI [of _ chunks] conjI)
    show "chunk_text text max_words overlap = Inr chunks" by (rule run)
    show "remove_overlap (nat overlap) (map py_split chunks) = py_split text"
      using whole by (simp only: ws_def ov_def)
    show "\<forall>j. j < length (py_split text) \<longrightarrow>
            (\<exists>i. i < length chunks \<and> py_split text ! j \<in> set (py_split (chunks ! i)))"
      using all by (simp only: ws_def)
  qed
next
  show "concat (map py_split (chunk_text_aoss text limit)) = py_split text"
    by (rule chunk_text_aoss_words)
next
  show "\<forall>j. j < length (py_split text) \<longrightarrow>
          (\<exists>c. c \<in> set (chunk_text_aoss text limit) \<and> py_split text ! j \<in> set (py_split c))"
  proof (intro allI impI)
    fix j assume "j < length (py_split text)"
    then have "py_split text ! j \<in> set (py_split text)"
      by (rule nth_mem)
    then have "py_split text ! j \<in> set (concat (map py_split (chunk_text_aoss text limit)))"
      by (simp only: chunk_text_aoss_words)
    then obtain ws where "ws \<in> set (map py_split (chunk_text_aoss text limit))"
        and in_ws: "py_split text ! j \<in> set ws"
      unfolding set_concat by blast
    then obtain c where "c \<in> set (chunk_text_aoss text limit)" and "ws = py_split c"
      unfolding set_map by blast
    with in_ws show "\<exists>c. c \<in> set (chunk_text_aoss text limit) \<and> py_split text ! j \<in> set (py_split c)"
      by blast
  qed
qed

text \<open>Six words in windows of three with an overlap of one.\<close>

theorem chunks_cover_text_witness:
  "(0::int) \<le> 1 \<and> (1::int) < 3 \<and>
   chunk_text ''a b c d e f'' 3 1 = Inr [''a b c'', ''c d e'', ''e f''] \<and>
   (\<exists>chunks. chunk_text ''a b c d e f'' 3 1 = Inr chunks \<and>
      remove_overlap (nat 1) (map py_split chunks) = py_split ''a b c d e f'' \<and>
      (\<forall>j. j < length (py_split ''a b c d e f'') \<longrightarrow>
           (\<exists>i. i < length chunks \<and> py_split ''a b c d e f'' ! j \<in> set (py_split (chunks ! i))))) \<and>
   concat (map py_split (chunk_text_aoss ''a b c d e f'' 2)) = py_split ''a b c d e f''"
proof -
  have run: "chunk_text ''a b c d e f'' 3 1 = Inr [''a b c'', ''c d e'', ''e f'']"
    by code_simp
  have le: "(0::int) \<le> 1" and lt: "(1::int) < 3" by simp_all
  note cover = chunks_cover_text [OF le lt, of "''a b c d e f''" 2]
  from cover have a: "\<exists>chunks. chunk_text ''a b c d e f'' 3 1 = Inr chunks \<and>
      remove_overlap (nat 1) (map py_split chunks) = py_split ''a b c d e f'' \<and>
      (\<forall>j. j < length (py_split ''a b c d e f'') \<longrightarrow>
           (\<exists>i. i < length chunks \<and> py_split ''a b c d e f'' ! j \<in> set (py_split (chunks ! i))))"
    by (rule conjunct1)
  from cover have b: "concat (map py_split (chunk_text_aoss ''a b c d e f'' 2)) = py_split ''a b c d e f''"
    by (rule conjunct1 [OF conjunct2])
  from le lt run a b show ?thesis by (intro conjI)
qed

text \<open>
  With a negative overlap the stride is longer than the window: for \<open>max_words = 1\<close> and
  \<open>overlap = -1\<close> the word \<open>b\<close> of \<open>a b c\<close> is in no chunk.
\<close>

theorem chunk_text_negative_overlap_skips_words:
  "chunk_text ''a b c'' 1 (- 1) = Inr [''a'', ''c''] \<and> py_split ''a b c'' = [''a'', ''b'', ''c'']"
  by code_simp

section \<open>The word limit of a chunk\<close>

text \<open>The windowed chunker keeps the limit, for every limit that is not negative.\<close>

lemma py_slice_empty: "py_slice xs i i = []"
  by (simp add: py_slice_def Let_def)

lemma chunk_text_zero_max_words:
  assumes "chunk_text text 0 overlap = Inr chunks"
  shows "chunks = []"
proof -
  obtain "is" where "chunks = chunk_loop (py_split text) 0 is []"
    using assms by (auto simp: chunk_text_def Let_def split: sum.splits)
  then show ?thesis by (simp add: chunk_loop_eq py_slice_empty)
qed

lemma chunk_text_word_bound:
  assumes "0 \<le> max_words" and "chunk_text text max_words overlap = Inr chunks"
    and "c \<in> set chunks"
  shows "int (length (py_split c)) \<le> max_words"
proof -
  consider "max_words = 0" | "0 < max_words" "max_words \<le> overlap"
    | "0 < max_words" "overlap < max_words"
    using assms(1) by linarith
  then show ?thesis
  proof cases
    case 1
    with assms(2,3) show ?thesis using chunk_text_zero_max_words by fastforce
  next
    case 2
    have "chunks = []"
    proof (cases "overlap = max_words")
      case True
      with assms(2) show ?thesis by (simp add: chunk_text_def py_range_def)
    next
      case False
      with 2 have "py_range 0 (int (length (py_split text))) (max_words - overlap) = Inr []"
        by (intro py_range_negative_step) simp_all
      with assms(2) show ?thesis by (simp add: chunk_text_def)
    qed
    with assms(3) show ?thesis by simp
  next
    case 3
    from chunk_text_windows [OF 3, of "text"] assms(2,3)
    obtain k where "c = py_join '' '' (take (nat max_words)
                          (drop (k * nat (max_words - overlap)) (py_split text)))"
      by auto
    then have "py_split c = take (nat max_words)
                 (drop (k * nat (max_words - overlap)) (py_split text))"
      by (simp add: py_split_window)
    then show ?thesis using 3(1) by simp
  qed
qed

text \<open>
  The sentence-aware chunker keeps the limit when no single sentence is above it.
\<close>

lemma sentence_loop_bound:
  assumes "\<forall>c\<in>set chunks. int (length (py_split c)) \<le> max_words"
    and "count = int (length (concat (map py_split current)))"
    and "count \<le> max_words"
    and "\<forall>s\<in>set ss. int (length (py_split s)) \<le> max_words"
    and "sentence_loop max_words ss chunks current count = (chunks', current', count')"
  shows "(\<forall>c\<in>set chunks'. int (length (py_split c)) \<le> max_words) \<and>
         int (length (concat (map py_split current'))) \<le> max_words"
  using assms
proof (induction ss arbitrary: chunks current count)
  case Nil
  then show ?case by simp
next
  case (Cons s ss)
  let ?w = "int (length (py_split s))"
  have w: "?w \<le> max_words" and rest: "\<forall>s\<in>set ss. int (length (py_split s)) \<le> max_words"
    using Cons.prems(4) by simp_all
  show ?case
  proof (cases "count + ?w > max_words")
    case True
    have flushed: "int (length (py_split (py_join '' '' current))) \<le> max_words"
      using Cons.prems(2,3) by (simp add: py_split_join)
    have loop: "sentence_loop max_words ss (chunks @ [py_join '' '' current]) [s] ?w
                = (chunks', current', count')"
      using True Cons.prems(5) by (simp add: Let_def)
    show ?thesis
    proof (rule Cons.IH [OF _ _ w rest loop])
      show "\<forall>c\<in>set (chunks @ [py_join '' '' current]). int (length (py_split c)) \<le> max_words"
        using Cons.prems(1) flushed by simp
      show "?w = int (length (concat (map py_split [s])))" by simp
    qed
  next
    case False
    have loop: "sentence_loop max_words ss chunks (current @ [s]) (count + ?w)
                = (chunks', current', count')"
      using False Cons.prems(5) by (simp add: Let_def)
    show ?thesis
    proof (rule Cons.IH [OF Cons.prems(1) _ _ rest loop])
      show "count + ?w = int (length (concat (map py_split (current @ [s]))))"
        using Cons.prems(2) by simp
      show "count + ?w \<le> max_words" using False by simp
    qed
  qed
qed

lemma chunk_text_aoss_word_bound:
  assumes "0 \<le> max_words"
    and "\<forall>s\<in>set (re_split_sentences text). int (length (py_split s)) \<le> max_words"
    and "c \<in> set (chunk_text_aoss text max_words)"
  shows "int (length (py_split c)) \<le> max_words"
proof -
  obtain chunks' current' count' where
    loop: "sentence_loop max_words (re_split_sentences text) [] [] 0 = (chunks', current', count')"
    by (metis prod_cases3)
  have "(\<forall>c\<in>set chunks'. int (length (py_split c)) \<le> max_words) \<and>
        int (length (concat (map py_split current'))) \<le> max_words"
    using _ _ assms(1,2) loop by (rule sentence_loop_bound) simp_all
  moreover have "c \<in> set chunks' \<or> c = py_join '' '' current'"
    using assms(3) loop by (auto simp: chunk_text_aoss_def split: if_splits)
  ultimately show ?thesis by (auto simp: py_split_join)
qed

text \<open>
  Claim C3 at the input on which the sentence-aware chunker breaks it. A text of 201
  words without a sentence end is one sentence: the loop first appends the join of the
  empty \<open>current\<close>, an empty chunk, and then the whole sentence, a chunk of 201 words
  under the limit of 200.
\<close>

theorem chunk_text_aoss_exceeds_max_words:
  "chunk_text_aoss (py_join '' '' (replicate 201 ''ab'')) 200
     = ['''', py_join '' '' (replicate 201 ''ab'')] \<and>
   length (py_split (py_join '' '' (replicate 201 ''ab''))) = 201"
proof -
  have plain: "\<forall>c\<in>set (py_join '' '' (replicate 201 ''ab'')). c \<notin> set ''.!?''"
    by code_simp
  have len: "length (py_split (py_join '' '' (replicate 201 ''ab''))) = 201"
    by code_simp
  have "(200::int) < int (length (py_split (py_join '' '' (replicate 201 ''ab''))))"
    by (simp only: len)
  with plain have "chunk_text_aoss (py_join '' '' (replicate 201 ''ab'')) 200
                   = [[], py_join '' '' (replicate 201 ''ab'')]"
    by (rule chunk_text_aoss_long_sentence)
  with len show ?thesis by simp
qed

section \<open>The pairing of the vector index and the metadata store\<close>

lemma process_chunks_paired:
  "paired e st \<Longrightarrow> process_chunks e key cs st = (r, st') \<Longrightarrow> paired e st'"
proof (induction cs arbitrary: st)
  case Nil
  then show ?case by simp
next
  case (Cons c cs)
  show ?case
  proof (cases "e c")
    case (Inl err)
    with Cons.prems show ?thesis by simp
  next
    case (Inr vector)
    show ?thesis
    proof (cases "faiss_add (index st) vector")
      case (Inl err)
      with Inr Cons.prems show ?thesis by simp
    next
      case added: (Inr idx)
      define st1 where
        "st1 = st\<lparr>index := idx,
                   metadata_list := metadata_list st @ [\<lparr>chunk = c, source = key\<rparr>]\<rparr>"
      from added have idx: "vectors idx = vectors (index st) @ [vector]"
        by (auto simp: faiss_add_def split: if_splits)
      have "paired e st1"
        using Cons.prems(1) Inr idx
        by (simp add: paired_def st1_def list_all2_appendI)
      moreover have "process_chunks e key cs st1 = (r, st')"
        using Cons.prems(2) Inr added by (simp add: st1_def)
      ultimately show ?thesis by (rule Cons.IH)
    qed
  qed
qed

lemma process_file_paired:
  "paired e st \<Longrightarrow> process_file g e bucket key st = (r, st') \<Longrightarrow> paired e st'"
  by (auto simp: process_file_def split: sum.splits dest: process_chunks_paired)

lemma process_files_paired:
  "paired e st \<Longrightarrow> process_files g e bucket keys st = (r, st') \<Longrightarrow> paired e st'"
proof (induction keys arbitrary: st)
  case Nil
  then show ?case by simp
next
  case (Cons key keys)
  obtain r1 st1 where one: "process_file g e bucket key st = (r1, st1)"
    by (cases "process_file g e bucket key st")
  with Cons.prems(1) have p1: "paired e st1" by (rule process_file_paired)
  show ?case
  proof (cases r1)
    case None
    with one Cons.prems(2) have "process_files g e bucket keys st1 = (r, st')" by simp
    with p1 show ?thesis by (rule Cons.IH)
  next
    case (Some err)
    with one Cons.prems(2) have "st' = st1" by simp
    with p1 show ?thesis by simp
  qed
qed

lemma paired_initial: "paired e \<lparr>index = IndexFlatL2 n, metadata_list = []\<rparr>"
  by (simp add: paired_def IndexFlatL2_def)

text \<open>
  Claim C1. Whatever files the local ingest processes, starting from the empty index and
  the empty metadata list, and whether it ends normally or by an exception, the metadata
  list is as long as the index has vectors, and the vector at every slot is the
  embedding of the chunk the metadata list holds at that slot.
\<close>

theorem ingest_keeps_stores_paired:
  assumes "process_files get_s3_text get_titan_embedding bucket keys
             \<lparr>index = IndexFlatL2 1536, metadata_list = []\<rparr> = (r, st')"
  shows "length (metadata_list st') = length (vectors (index st')) \<and>
         (\<forall>i. i < length (metadata_list st') \<longrightarrow>
              get_titan_embedding (chunk (metadata_list st' ! i)) = Inr (vectors (index st') ! i))"
proof -
  have "paired get_titan_embedding st'"
    using paired_initial assms by (rule process_files_paired)
  then show ?thesis
    by (simp add: paired_def list_all2_conv_all_nth)
qed

text \<open>
  Two files of one chunk each, the embedding of a chunk being its length in every
  coordinate.
\<close>

theorem ingest_keeps_stores_paired_witness:
  "process_files (\<lambda>b k. if k = ''a.txt'' then Inr ''alpha beta'' else Inr ''gamma'')
     (\<lambda>c. Inr (replicate 1536 (int (length c)))) ''bucket''
     [''a.txt'', ''b.txt''] \<lparr>index = IndexFlatL2 1536, metadata_list = []\<rparr>
   = (None, \<lparr>index = \<lparr>dim = 1536, vectors = [replicate 1536 10, replicate 1536 5]\<rparr>,
             metadata_list = [\<lparr>chunk = ''alpha beta'', source = ''a.txt''\<rparr>,
                              \<lparr>chunk = ''gamma'', source = ''b.txt''\<rparr>]\<rparr>) \<and>
   length [\<lparr>chunk = ''alpha beta'', source = ''a.txt''\<rparr>,
           \<lparr>chunk = ''gamma'', source = ''b.txt''\<rparr>]
     = length [replicate 1536 (10::int), replicate 1536 5] \<and>
   (Inr (replicate 1536 (int (length (chunk ([\<lparr>chunk = ''alpha beta'', source = ''a.txt''\<rparr>,
           \<lparr>chunk = ''gamma'', source = ''b.txt''\<rparr>] ! 0))))) :: error + int list)
     = Inr ([replicate 1536 (10::int), replicate 1536 5] ! 0) \<and>
   (Inr (replicate 1536 (int (length (chunk ([\<lparr>chunk = ''alpha beta'', source = ''a.txt''\<rparr>,
           \<lparr>chunk = ''gamma'', source = ''b.txt''\<rparr>] ! 1))))) :: error + int list)
     = Inr ([replicate 1536 (10::int), replicate 1536 5] ! 1)"
proof -
  have chunks: "chunk_text ''alpha beta'' 200 50 = Inr [''alpha beta'']"
               "chunk_text ''gamma'' 200 50 = Inr [''gamma'']"
    by code_simp+
  have run: "process_files (\<lambda>b k. if k = ''a.txt'' then Inr ''alpha beta'' else Inr ''gamma'')
     (\<lambda>c. Inr (replicate 1536 (int (length c)))) ''bucket''
     [''a.txt'', ''b.txt''] \<lparr>index = IndexFlatL2 1536, metadata_list = []\<rparr>
   = (None, \<lparr>index = \<lparr>dim = 1536, vectors = [replicate 1536 10, replicate 1536 5]\<rparr>,
             metadata_list = [\<lparr>chunk = ''alpha beta'', source = ''a.txt''\<rparr>,
                              \<lparr>chunk = ''gamma'', source = ''b.txt''\<rparr>]\<rparr>)"
    by (simp add: process_file_def chunks faiss_add_def IndexFlatL2_def)
  from ingest_keeps_stores_paired [OF run] run show ?thesis by simp
qed

section \<open>A failing chunk during ingest\<close>

text \<open>
  The managed-search ingest catches the exception of a chunk and goes on: whatever the
  services answer, it requests the embedding of every chunk of at least 20 characters.
\<close>

lemma embedded_texts_append:
  "embedded_texts (xs @ ys) = embedded_texts xs @ embedded_texts ys"
  by (simp add: embedded_texts_def)

lemma aoss_embed_text_calls:
  "aoss_embed_text a invoke_model calls c = (r, calls1) \<Longrightarrow>
   calls1 = calls @ [InvokeModel (bedrock_model_id a) (JObj [(''inputText'', JStr c)])]"
  by (auto simp: aoss_embed_text_def Let_def split: sum.splits)

lemma index_chunk_calls:
  "index_chunk a post calls c v src = (r, calls1) \<Longrightarrow>
   embedded_texts calls1 = embedded_texts calls"
  by (auto simp: index_chunk_def Let_def embedded_texts_def split: sum.splits)

lemma ingest_chunks_embeds_every_long_chunk:
  "embedded_texts (ingest_chunks a invoke_model post key cs calls)
   = embedded_texts calls @ map (\<lambda>c. JObj [(''inputText'', JStr c)]) (long_chunks cs)"
proof (induction cs arbitrary: calls)
  case Nil
  then show ?case by (simp add: long_chunks_def)
next
  case (Cons c cs)
  show ?case
  proof (cases "length (py_strip c) < 20")
    case True
    with Cons show ?thesis by (simp add: long_chunks_def)
  next
    case False
    obtain r calls1 where emb: "aoss_embed_text a invoke_model calls c = (r, calls1)"
      by (cases "aoss_embed_text a invoke_model calls c")
    then have calls1: "embedded_texts calls1
                       = embedded_texts calls @ [JObj [(''inputText'', JStr c)]]"
      by (auto dest!: aoss_embed_text_calls simp: embedded_texts_def)
    show ?thesis
    proof (cases r)
      case (Inl e)
      with False emb have "ingest_chunks a invoke_model post key (c # cs) calls
                           = ingest_chunks a invoke_model post key cs calls1"
        by simp
      with False calls1 Cons show ?thesis by (simp add: long_chunks_def)
    next
      case (Inr embedding)
      obtain r2 calls2 where idx: "index_chunk a post calls1 c embedding key = (r2, calls2)"
        by (cases "index_chunk a post calls1 c embedding key")
      then have calls2: "embedded_texts calls2 = embedded_texts calls1"
        by (rule index_chunk_calls)
      from False emb Inr idx have "ingest_chunks a invoke_model post key (c # cs) calls
                                   = ingest_chunks a invoke_model post key cs calls2"
        by (cases r2) simp_all
      with False calls1 calls2 Cons show ?thesis by (simp add: long_chunks_def)
    qed
  qed
qed

text \<open>The local ingest has no handler: the exception of a chunk ends the loop.\<close>

lemma process_chunks_stops_at_failure:
  "get_titan_embedding c = Inl e \<Longrightarrow>
   process_chunks get_titan_embedding key (c # cs) st = (Some e, st)"
  by simp

text \<open>
  Claim C9 at the input on which the local ingest breaks it. The embedding of the first
  of two chunks fails: \<open>process_file\<close>'s loop ends with the exception, and the second
  chunk is neither embedded nor indexed. On the same chunks and the same failure the
  managed-search loop goes on to embed and index the second chunk.
\<close>

theorem process_file_aborts_on_embedding_failure:
  "process_chunks (\<lambda>c. if c = ''first chunk of the document'' then Inl ClientError
                        else Inr [1, 2 :: int])
     ''doc.txt'' [''first chunk of the document'', ''second chunk of the document'']
     \<lparr>index = IndexFlatL2 2, metadata_list = []\<rparr>
   = (Some ClientError, \<lparr>index = IndexFlatL2 2, metadata_list = []\<rparr>) \<and>
   ingest_chunks \<lparr>index_name = ''idx'', aoss_endpoint = ''https://aoss'',
                   bedrock_model_id = ''amazon.titan-embed-text-v1''\<rparr>
     (\<lambda>m b. if b = JObj [(''inputText'', JStr ''first chunk of the document'')]
             then Inl ClientError else Inr (JObj [(''embedding'', JArr [JNum 1, JNum 2])]))
     (\<lambda>u p. Inr \<lparr>status_code = 201, response_text = [], json_body = Inr JNull\<rparr>)
     ''doc.txt'' [''first chunk of the document'', ''second chunk of the document''] []
   = [InvokeModel ''amazon.titan-embed-text-v1''
        (JObj [(''inputText'', JStr ''first chunk of the document'')]),
      InvokeModel ''amazon.titan-embed-text-v1''
        (JObj [(''inputText'', JStr ''second chunk of the document'')]),
      HttpPost ''https://aoss/idx/_doc''
        (JObj [(''chunk'', JStr ''second chunk of the document''),
               (''embedding'', JArr [JNum 1, JNum 2]),
               (''source'', JStr ''doc.txt'')])]"
proof -
  have len: "\<not> length (py_strip ''first chunk of the document'') < 20"
            "\<not> length (py_strip ''second chunk of the document'') < 20"
    by code_simp+
  show ?thesis
    using len by (simp add: aoss_embed_text_def index_chunk_def Let_def)
qed

section \<open>Dispatch on the model identifier\<close>

lemma startswith_longer:
  "\<not> startswith s p \<Longrightarrow> \<not> startswith s (p @ q)"
proof
  assume no: "\<not> startswith s p" and yes: "startswith s (p @ q)"
  from yes have "take (length p) (take (length (p @ q)) s) = take (length p) (p @ q)"
    by (simp only: startswith_def)
  then have "take (length p) s = p" by (simp add: min_def)
  with no show False by (simp add: startswith_def)
qed

text \<open>
  Claim C6. A model identifier that starts with none of the prefixes of the known
  families (\<open>anthropic.claude\<close>, \<open>amazon.titan-text\<close>, \<open>mistral.\<close>, \<open>cohere.command-r\<close>)
  makes both dispatchers, \<open>generate_answer\<close> of the Lambda handler and
  \<open>call_bedrock_model\<close> of the local query tool, raise \<open>ValueError\<close> with the list of
  requests unchanged: no request reaches the generation service.
\<close>

theorem unknown_model_rejected_before_transport:
  assumes "\<not> startswith model_id ''anthropic.claude''"
    and "\<not> startswith model_id ''amazon.titan-text''"
    and "\<not> startswith model_id ''mistral.''"
    and "\<not> startswith model_id ''cohere.command-r''"
  shows "generate_answer invoke_model calls prompt model_id = (Inl ValueError, calls) \<and>
         call_bedrock_model invoke_model calls prompt model_id = (Inl ValueError, calls)"
proof -
  have "\<not> startswith model_id (''mistral.'' @ ''mistral-7b'')"
    using assms(3) by (rule startswith_longer)
  then have m: "\<not> startswith model_id ''mistral.mistral-7b''" by simp
  have "generate_answer invoke_model calls prompt model_id = (Inl ValueError, calls)"
    using assms(1,2,4) m by (simp add: generate_answer_def)
  moreover have "call_bedrock_model invoke_model calls prompt model_id = (Inl ValueError, calls)"
    using assms(1,2,3) by (simp add: call_bedrock_model_def)
  ultimately show ?thesis by (rule conjI)
qed

text \<open>The identifier \<open>unknown-family\<close>.\<close>

theorem unknown_model_rejected_before_transport_witness:
  "\<not> startswith ''unknown-family'' ''anthropic.claude'' \<and>
   \<not> startswith ''unknown-family'' ''amazon.titan-text'' \<and>
   \<not> startswith ''unknown-family'' ''mistral.'' \<and>
   \<not> startswith ''unknown-family'' ''cohere.command-r'' \<and>
   generate_answer (\<lambda>m b. Inr JNull) [] ''What is RAG?'' ''unknown-family'' = (Inl ValueError, []) \<and>
   call_bedrock_model (\<lambda>m b. Inr JNull) [] ''What is RAG?'' ''unknown-family''
     = (Inl ValueError, [])"
proof -
  have a: "\<not> startswith ''unknown-family'' ''anthropic.claude''"
    and b: "\<not> startswith ''unknown-family'' ''amazon.titan-text''"
    and c: "\<not> startswith ''unknown-family'' ''mistral.''"
    and d: "\<not> startswith ''unknown-family'' ''cohere.command-r''"
    by (simp_all add: startswith_def)
  from unknown_model_rejected_before_transport [OF a b c d, of "\<lambda>m b. Inr JNull" "[]" "''What is RAG?''"]
    a b c d show ?thesis by simp
qed

section \<open>The prompt without retrieval\<close>

text \<open>
  The Lambda handler and the managed-search command line pass the question through; the
  local query tool puts it into a template.
\<close>

lemma full_prompt_passthrough: "full_prompt False question context_chunks = question"
  by (simp add: full_prompt_def)

lemma aoss_main_prompt_passthrough: "aoss_main_prompt False question context = question"
  by (simp add: aoss_main_prompt_def)

lemma main_prompt_wraps_question:
  "main_prompt distance idx md get_embedding True question
   = Inr (''Answer the following question:\<newline>\<newline>Question: '' @ question
            @ ''\<newline>\<newline>Answer:'') \<and>
   main_prompt distance idx md get_embedding True question \<noteq> Inr question"
proof -
  have "length (''Answer the following question:\<newline>\<newline>Question: '' @ question
            @ ''\<newline>\<newline>Answer:'') \<noteq> length question"
    by simp
  then have "''Answer the following question:\<newline>\<newline>Question: '' @ question
            @ ''\<newline>\<newline>Answer:'' \<noteq> question"
    by (metis (full_types))
  then show ?thesis by (simp add: main_prompt_def)
qed

text \<open>
  Claim C5 at the input on which the local query tool breaks it. With \<open>--disable-rag\<close>
  and the question \<open>What is RAG?\<close> the one request to the generation model carries the
  question inside the template \<open>Answer the following question: ... Answer:\<close>, not the
  question alone.
\<close>

theorem local_prompt_without_rag_adds_template:
  "main_round (\<lambda>q v. 0 :: int) (IndexFlatL2 1536 :: int faiss_index) []
     (\<lambda>t. Inr (replicate 1536 0)) (\<lambda>m b. Inr (JObj [(''results'', JArr [JObj [(''outputText'', JStr ''It is retrieval.'')]])]))
     True ''amazon.titan-text-lite-v1'' [] ''What is RAG?''
   = (Some (Inr (JStr ''It is retrieval.'')),
      [InvokeModel ''amazon.titan-text-lite-v1''
         (JObj [(''inputText'',
            JStr ''Answer the following question:\<newline>\<newline>Question: What is RAG?\<newline>\<newline>Answer:'')])])"
proof -
  have strip: "py_strip ''What is RAG?'' = ''What is RAG?''"
    by code_simp
  show ?thesis
    by (simp add: main_round_def strip main_prompt_def call_bedrock_model_def
                  startswith_def Let_def)
qed

section \<open>Retrieval from a short index\<close>

text \<open>
  The row of labels has exactly \<open>k\<close> entries, so a retrieval that returns has exactly \<open>k\<close>
  records; on an empty index with an empty metadata list it raises.
\<close>

lemma faiss_search_row_length:
  "faiss_search distance idx q k = Inr I0 \<Longrightarrow> length I0 = nat k"
  by (auto simp: faiss_search_def Let_def split: if_splits)

lemma lookup_all_length:
  "lookup_all md is = Inr ms \<Longrightarrow> length ms = length is"
  by (induction "is" arbitrary: ms) (auto split: sum.splits)

lemma retrieve_top_k_length:
  assumes "retrieve_top_k distance idx q md k = Inr ms"
  shows "length ms = nat k"
proof -
  from assms obtain I0 where row: "faiss_search distance idx q k = Inr I0"
      and look: "lookup_all md I0 = Inr ms"
    by (auto simp: retrieve_top_k_def split: sum.splits)
  from look have "length ms = length I0" by (rule lookup_all_length)
  also from row have "\<dots> = nat k" by (rule faiss_search_row_length)
  finally show ?thesis .
qed

lemma faiss_search_empty_index:
  assumes "0 < k" and "length q = dim idx" and "vectors idx = []"
  shows "faiss_search distance idx q k = Inr (replicate (nat k) (- 1))"
  using assms by (simp add: faiss_search_def)

lemma retrieve_top_k_empty_index:
  assumes "0 < k" and "length q = dim idx" and "vectors idx = []"
  shows "retrieve_top_k distance idx q [] k = Inl IndexError"
proof -
  obtain n where n: "nat k = Suc n" using assms(1) by (cases "nat k") simp_all
  have "faiss_search distance idx q k = Inr (replicate (nat k) (- 1))"
    using assms by (rule faiss_search_empty_index)
  then show ?thesis by (simp add: retrieve_top_k_def n list_getitem_def)
qed

text \<open>
  Claim C7 at the inputs on which \<open>retrieve_top_k\<close> breaks it. On the empty index the
  labels are all \<open>-1\<close> and \<open>metadata[-1]\<close> on the empty list raises \<open>IndexError\<close>. On an
  index of two vectors and \<open>k = 5\<close> the labels are the two slots, nearest first, and
  three times \<open>-1\<close>, which \<open>metadata[-1]\<close> reads as the last record: five records come
  back, three of them copies of the last one.
\<close>

theorem retrieve_top_k_on_short_index:
  "retrieve_top_k (\<lambda>q v. sum_list (map2 (\<lambda>a b. (a - b) * (a - b)) q v))
     (IndexFlatL2 1536 :: int faiss_index) (replicate 1536 0) [] TOP_K
   = Inl IndexError \<and>
   faiss_search (\<lambda>q v. sum_list (map2 (\<lambda>a b. (a - b) * (a - b)) q v))
     \<lparr>dim = 2, vectors = [[3, 4], [1, 0 :: int]]\<rparr> [0, 0] TOP_K
   = Inr [1, 0, - 1, - 1, - 1] \<and>
   retrieve_top_k (\<lambda>q v. sum_list (map2 (\<lambda>a b. (a - b) * (a - b)) q v))
     \<lparr>dim = 2, vectors = [[3, 4], [1, 0 :: int]]\<rparr> [0, 0]
     [\<lparr>chunk = ''far'', source = ''a.txt''\<rparr>, \<lparr>chunk = ''near'', source = ''b.txt''\<rparr>] TOP_K
   = Inr [\<lparr>chunk = ''near'', source = ''b.txt''\<rparr>, \<lparr>chunk = ''far'', source = ''a.txt''\<rparr>,
          \<lparr>chunk = ''near'', source = ''b.txt''\<rparr>, \<lparr>chunk = ''near'', source = ''b.txt''\<rparr>,
          \<lparr>chunk = ''near'', source = ''b.txt''\<rparr>]"
proof (intro conjI)
  show "retrieve_top_k (\<lambda>q v. sum_list (map2 (\<lambda>a b. (a - b) * (a - b)) q v))
     (IndexFlatL2 1536 :: int faiss_index) (replicate 1536 0) [] TOP_K = Inl IndexError"
  proof (rule retrieve_top_k_empty_index)
    show "0 < TOP_K" by (simp add: TOP_K_def)
    show "length (replicate 1536 (0::int)) = dim (IndexFlatL2 1536 :: int faiss_index)"
      by (simp only: length_replicate IndexFlatL2_def faiss_index.select_convs)
    show "vectors (IndexFlatL2 1536 :: int faiss_index) = []"
      by (simp only: IndexFlatL2_def faiss_index.select_convs)
  qed
  have row: "faiss_search (\<lambda>q v. sum_list (map2 (\<lambda>a b. (a - b) * (a - b)) q v))
     \<lparr>dim = 2, vectors = [[3, 4], [1, 0 :: int]]\<rparr> [0, 0] TOP_K
   = Inr [1, 0, - 1, - 1, - 1]"
    by code_simp
  show "faiss_search (\<lambda>q v. sum_list (map2 (\<lambda>a b. (a - b) * (a - b)) q v))
     \<lparr>dim = 2, vectors = [[3, 4], [1, 0 :: int]]\<rparr> [0, 0] TOP_K
   = Inr [1, 0, - 1, - 1, - 1]"
    by (rule row)
  show "retrieve_top_k (\<lambda>q v. sum_list (map2 (\<lambda>a b. (a - b) * (a - b)) q v))
     \<lparr>dim = 2, vectors = [[3, 4], [1, 0 :: int]]\<rparr> [0, 0]
     [\<lparr>chunk = ''far'', source = ''a.txt''\<rparr>, \<lparr>chunk = ''near'', source = ''b.txt''\<rparr>] TOP_K
   = Inr [\<lparr>chunk = ''near'', source = ''b.txt''\<rparr>, \<lparr>chunk = ''far'', source = ''a.txt''\<rparr>,
          \<lparr>chunk = ''near'', source = ''b.txt''\<rparr>, \<lparr>chunk = ''near'', source = ''b.txt''\<rparr>,
          \<lparr>chunk = ''near'', source = ''b.txt''\<rparr>]"
    by (simp add: retrieve_top_k_def row list_getitem_def)
qed

section \<open>The responses of the Lambda handler\<close>











text \<open>
  With \<open>queryStringParameters\<close> set to \<open>null\<close> the handler raises on its first
  \<open>params.get\<close>.
\<close>

lemma lambda_handler_null_parameters:
  "lambda_handler cfg invoke_model post calls \<lparr>queryStringParameters = Null\<rparr>
   = (Inl AttributeError, calls)"
  by (simp add: lambda_handler_def)

text \<open>A request with retrieval enabled, on services that answer.\<close>

lemma lambda_handler_with_retrieval:
  "lambda_handler \<lparr>INDEX_NAME = ''idx'', AOSS_ENDPOINT = ''https://aoss''\<rparr>
     (\<lambda>m b. if m = ''amazon.titan-embed-text-v1''
             then Inr (JObj [(''embedding'', JArr [JNum 1, JNum 2])])
             else Inr (JObj [(''results'', JArr [JObj [(''outputText'', JStr ''Yes.'')]])]))
     (\<lambda>u p. Inr \<lparr>status_code = 200, response_text = [],
                  json_body = Inr (JObj [(''hits'', JObj [(''hits'',
                     JArr [JObj [(''_source'', JObj [(''chunk'', JStr ''first'')])],
                           JObj [(''_source'', JObj [(''chunk'', JStr ''second'')])]])])])\<rparr>)
     []
     \<lparr>queryStringParameters = Params [(''prompt'', ''Why?''), (''enable_rag'', ''TRUE'')]\<rparr>
   = (Inr \<lparr>statusCode = 200,
            headers = Some [(''Content-Type'', ''application/json'')],
            body = Dumps (JObj [(''answer'', JStr ''Yes.'')])\<rparr>,
      [InvokeModel ''amazon.titan-embed-text-v1'' (JObj [(''inputText'', JStr ''Why?'')]),
       HttpPost ''https://aoss/idx/_search''
         (JObj [(''size'', JNum 5),
                (''query'', JObj [(''knn'', JObj [(''embedding'',
                    JObj [(''vector'', JArr [JNum 1, JNum 2]), (''k'', JNum 5)])])])]),
       InvokeModel ''amazon.titan-text-lite-v1''
         (JObj [(''inputText'',
                 JStr ''Use the context below to answer the question.\<newline>Context:\<newline>first\<newline>second\<newline>\<newline>Question: Why?\<newline>Answer:''),
                (''textGenerationConfig'',
                   JObj [(''maxTokenCount'', JNum 512),
                         (''temperature'', JNum (1 / 2)),
                         (''topP'', JNum (9 / 10))])])])"
proof -
  have lower: "py_lower ''TRUE'' = ''true''" by code_simp
  have strip: "py_strip ''Yes.'' = ''Yes.''" by code_simp
  show ?thesis
    by (simp add: lambda_handler_def lower strip retrieve_context_def embed_text_def
                  EMBED_MODEL_ID_def knn_search_def response_hits_def generate_answer_def
                  full_prompt_def startswith_def Let_def)
qed




end
